theory Spec2Isabelle
  imports Complex_Main "HOL-Library.Word"
begin

section \<open>The Strux WebKit extension: the bridge between the page and the Go backend\<close>

text \<open>
  The extension (\<^verbatim>\<open>src/assets/wpe-extension-base/extension.c\<close>) talks to the backend
  over two socket connections that carry one JSON document per line. The model below
  follows the C source function by function. What the source leaves to its libraries is
  made explicit:
  \<^item> a line of text is represented by the JSON document it is the serialisation of
    (\<^verbatim>\<open>json_generator_to_data\<close> on the way out, \<^verbatim>\<open>json_parser_load_from_data\<close>
    on the way in, where a line that does not parse is the value \<open>Malformed\<close>);
  \<^item> the outcome of every connect, write and synchronous read, the script engine's
    \<^verbatim>\<open>JSON.parse\<close> and the rounding of a large integer to a double are fields of a
    record \<open>world\<close> that every function takes as a parameter;
  \<^item> calls of script functions, lines written to a socket and reads started on the
    asynchronous connection are appended to the list \<open>effects\<close> of the state, in the
    order in which the source performs them;
  \<^item> the mutexes are not modelled: the callbacks of the source all run on the one
    thread of the script engine, one after the other.
  Diagnostic output on \<^verbatim>\<open>stderr\<close> is left out.
\<close>

subsection \<open>JSON nodes (json-glib) and script values (JavaScriptCore)\<close>

text \<open>
  A \<^verbatim>\<open>JsonNode\<close> is an object, an array, the null node, or a value node holding a
  string, a double, a 64-bit integer or a boolean. \<open>JOther\<close> stands for a value node
  that holds none of these four, the case of the last \<^verbatim>\<open>else\<close> of the conversions.
\<close>

datatype json =
    JString string
  | JDouble real
  | JInt int
  | JBool bool
  | JOther
  | JNull
  | JArray "json list"
  | JObject "(string \<times> json) list"

text \<open>
  Script functions are told apart by what they are: the two settling functions of the
  promise number \<open>n\<close> made by \<^verbatim>\<open>js_call_go_method\<close>, or any other function of the page.
\<close>

datatype jsc_fun = PromiseResolve nat | PromiseReject nat | ScriptFunction nat

datatype jsc_value =
    JsUndefined
  | JsNull
  | JsBoolean bool
  | JsNumber real
  | JsString string
  | JsArray "jsc_value list"
  | JsObject "(string \<times> jsc_value) list"
  | JsFunction jsc_fun
  | JsPromise nat

fun jsc_value_is_string :: "jsc_value \<Rightarrow> bool" where
  "jsc_value_is_string (JsString s) = True"
| "jsc_value_is_string v = False"

fun jsc_value_is_number :: "jsc_value \<Rightarrow> bool" where
  "jsc_value_is_number (JsNumber x) = True"
| "jsc_value_is_number v = False"

fun jsc_value_is_boolean :: "jsc_value \<Rightarrow> bool" where
  "jsc_value_is_boolean (JsBoolean b) = True"
| "jsc_value_is_boolean v = False"

fun jsc_value_is_function :: "jsc_value \<Rightarrow> bool" where
  "jsc_value_is_function (JsFunction f) = True"
| "jsc_value_is_function v = False"

fun jsc_value_is_array :: "jsc_value \<Rightarrow> bool" where
  "jsc_value_is_array (JsArray xs) = True"
| "jsc_value_is_array v = False"

text \<open>In the script engine arrays, functions and promises are objects too.\<close>

fun jsc_value_is_object :: "jsc_value \<Rightarrow> bool" where
  "jsc_value_is_object (JsObject ms) = True"
| "jsc_value_is_object (JsArray xs) = True"
| "jsc_value_is_object (JsFunction f) = True"
| "jsc_value_is_object (JsPromise n) = True"
| "jsc_value_is_object v = False"

text \<open>\<^verbatim>\<open>jsc_value_new_string\<close>; of a \<^verbatim>\<open>NULL\<close> pointer it makes the empty string.\<close>

fun jsc_value_new_string :: "string option \<Rightarrow> jsc_value" where
  "jsc_value_new_string (Some s) = JsString s"
| "jsc_value_new_string None = JsString []"

text \<open>
  The accessors of json-glib return \<^verbatim>\<open>NULL\<close> or \<^verbatim>\<open>FALSE\<close> when the node is not of
  the kind asked for.
\<close>

fun json_node_get_object :: "json \<Rightarrow> (string \<times> json) list option" where
  "json_node_get_object (JObject ms) = Some ms"
| "json_node_get_object j = None"

fun json_object_has_member :: "(string \<times> json) list option \<Rightarrow> string \<Rightarrow> bool" where
  "json_object_has_member None k = False"
| "json_object_has_member (Some ms) k = (map_of ms k \<noteq> None)"

fun json_object_get_member :: "(string \<times> json) list option \<Rightarrow> string \<Rightarrow> json option" where
  "json_object_get_member None k = None"
| "json_object_get_member (Some ms) k = map_of ms k"

fun json_object_get_string_member :: "(string \<times> json) list option \<Rightarrow> string \<Rightarrow> string option" where
  "json_object_get_string_member obj k =
     (case json_object_get_member obj k of Some (JString s) \<Rightarrow> Some s | _ \<Rightarrow> None)"

subsection \<open>The world outside the extension\<close>

text \<open>What \<^verbatim>\<open>json_parser_load_from_data\<close> makes of a received line.\<close>

datatype parsed = Malformed | Document json

text \<open>
  How \<^verbatim>\<open>g_data_input_stream_read_line_finish\<close> ends: with no line or with an error
  (whose message, if there is one, is kept), or with a line.
\<close>

datatype read_result = ReadFailed "string option" | ReadLine parsed

record world =
  w_sync_connect :: "nat \<Rightarrow> bool"
  w_sync_write :: "nat \<Rightarrow> bool"
  w_sync_read :: "nat \<Rightarrow> parsed option"
  w_async_connect :: "nat \<Rightarrow> bool"
  w_async_write :: "nat \<Rightarrow> bool"
  w_json_parse :: "json \<Rightarrow> string + jsc_value"
  w_int64_to_double :: "int \<Rightarrow> real"

text \<open>
  \<open>w_sync_connect w n\<close> and \<open>w_async_connect w n\<close> tell whether the \<open>n\<close>-th attempt to
  connect succeeds, \<open>w_sync_write w n\<close> and \<open>w_async_write w n\<close> whether the \<open>n\<close>-th write
  does, and \<open>w_sync_read w n\<close> is the line read after the \<open>n\<close>-th synchronous write
  (\<open>None\<close> when the read fails or the stream ends). \<open>w_json_parse w j\<close> is what the page's
  \<^verbatim>\<open>JSON.parse\<close> returns on the text of \<open>j\<close>: a value, or the message of the exception
  it throws. \<open>w_int64_to_double w n\<close> is the double nearest to an integer beyond \<open>2^53\<close>.
\<close>

subsection \<open>The state of the extension\<close>

record pending_promise =
  pp_resolve :: jsc_value
  pp_reject :: jsc_value
  pp_context :: nat

record async_request =
  req_message :: json
  req_call_id :: string
  req_resolve :: jsc_value
  req_reject :: jsc_value
  req_context :: nat

datatype effect =
    SyncWrote json
  | AsyncWrote json
  | AsyncReadStarted string
  | Called jsc_value jsc_value

text \<open>What \<^verbatim>\<open>inject_bindings\<close> puts into the window object, by the path of its name.\<close>

datatype binding =
    PlainObject
  | NativeFunction
  | MethodStub string
  | FieldAccessor string string

record bridge =
  sync_connection :: bool
  sync_connects :: nat
  sync_writes :: nat
  async_connection :: bool
  async_connects :: nat
  async_writes :: nat
  async_queue :: "async_request list option"
  async_inflight :: bool
  call_counter :: "32 word"
  pending_promises :: "string \<rightharpoonup> pending_promise"
  async_reads :: "string list"
  js_promises :: nat
  js_exception :: "string option"
  js_window :: "(string list \<times> binding) list"
  effects :: "effect list"

text \<open>
  The connections are \<open>True\<close> once connected (not \<^verbatim>\<open>NULL\<close>); \<open>async_queue\<close> is \<open>None\<close>
  until \<^verbatim>\<open>send_ipc_message_async\<close> creates the queue. \<open>async_reads\<close> lists the read
  contexts of the \<^verbatim>\<open>g_data_input_stream_read_line_async\<close> calls that have not
  completed yet, \<open>js_promises\<close> counts the promises made so far, and \<open>js_exception\<close> is the
  exception pending in the script context.
\<close>

definition initial_bridge :: bridge where
  "initial_bridge =
     \<lparr>sync_connection = False, sync_connects = 0, sync_writes = 0,
      async_connection = False, async_connects = 0, async_writes = 0,
      async_queue = None, async_inflight = False, call_counter = 0,
      pending_promises = Map.empty, async_reads = [], js_promises = 0,
      js_exception = None, js_window = [], effects = []\<rparr>"

subsection \<open>The asynchronous channel\<close>

definition connect_async_ipc :: "world \<Rightarrow> bridge \<Rightarrow> bool \<times> bridge" where
  "connect_async_ipc w s =
     (if async_connection s then (True, s)
      else let ok = w_async_connect w (async_connects s)
           in (ok, s\<lparr>async_connection := ok, async_connects := Suc (async_connects s)\<rparr>))"

definition queue_length :: "bridge \<Rightarrow> nat" where
  "queue_length s = (case async_queue s of None \<Rightarrow> 0 | Some q \<Rightarrow> length q)"

function start_next_async_request :: "world \<Rightarrow> bridge \<Rightarrow> bridge" where
  "start_next_async_request w s =
     (if async_inflight s \<or> async_queue s = None \<or> queue_length s = 0 then s
      else
        let req = hd (the (async_queue s));
            s1 = s\<lparr>async_queue := Some (tl (the (async_queue s))), async_inflight := True\<rparr>;
            c = connect_async_ipc w s1;
            s2 = snd c
        in if \<not> fst c then
             start_next_async_request w
               (s2\<lparr>effects := effects s2 @ [Called (req_reject req) (JsString ''Failed to connect to IPC'')],
                   async_inflight := False\<rparr>)
           else
             let s3 = s2\<lparr>pending_promises := (pending_promises s2)(req_call_id req \<mapsto>
                           \<lparr>pp_resolve = req_resolve req, pp_reject = req_reject req,
                            pp_context = req_context req\<rparr>)\<rparr>
             in if \<not> w_async_write w (async_writes s3) then
                  start_next_async_request w
                    (s3\<lparr>async_writes := Suc (async_writes s3),
                        effects := effects s3 @ [Called (req_reject req) (JsString ''Failed to write message'')],
                        pending_promises := (pending_promises s3)(req_call_id req := None),
                        async_inflight := False\<rparr>)
                else
                  s3\<lparr>async_writes := Suc (async_writes s3),
                     effects := effects s3 @ [AsyncWrote (req_message req), AsyncReadStarted (req_call_id req)],
                     async_reads := async_reads s3 @ [req_call_id req]\<rparr>)"
  by pat_completeness auto
termination
  by (relation "measure (\<lambda>(w, s). queue_length s)")
     (auto simp: queue_length_def connect_async_ipc_def Let_def split: option.splits)

declare start_next_async_request.simps [simp del]

text \<open>
  \<^verbatim>\<open>json_node_get_double\<close>: the double a number node holds; a 64-bit integer is
  converted, exactly up to \<open>2^53\<close> in absolute value.
\<close>

fun json_node_get_double :: "world \<Rightarrow> json \<Rightarrow> real" where
  "json_node_get_double w (JDouble d) = d"
| "json_node_get_double w (JInt n) =
     (if \<bar>n\<bar> \<le> 2 ^ 53 then real_of_int n else w_int64_to_double w n)"
| "json_node_get_double w (JBool b) = (if b then 1 else 0)"
| "json_node_get_double w j = 0"

text \<open>
  The branch \<^verbatim>\<open>node_type == JSON_NODE_VALUE\<close> of the two conversions (lines 276-287
  and 593-604 of the source, which are the same).
\<close>

fun convert_value_node :: "world \<Rightarrow> json \<Rightarrow> jsc_value" where
  "convert_value_node w (JString s) = jsc_value_new_string (Some s)"
| "convert_value_node w (JDouble d) = JsNumber (json_node_get_double w (JDouble d))"
| "convert_value_node w (JInt n) = JsNumber (json_node_get_double w (JInt n))"
| "convert_value_node w (JBool b) = JsBoolean b"
| "convert_value_node w j = JsNull"

fun is_value_node :: "json \<Rightarrow> bool" where
  "is_value_node (JString s) = True"
| "is_value_node (JDouble d) = True"
| "is_value_node (JInt n) = True"
| "is_value_node (JBool b) = True"
| "is_value_node JOther = True"
| "is_value_node j = False"

fun is_container_node :: "json \<Rightarrow> bool" where
  "is_container_node (JObject ms) = True"
| "is_container_node (JArray xs) = True"
| "is_container_node j = False"

text \<open>
  The conversion of the \<^verbatim>\<open>result\<close> member in \<^verbatim>\<open>async_read_callback\<close> (lines 269-333):
  an object or array goes through the page's \<^verbatim>\<open>JSON.parse\<close>; afterwards the context
  is asked for a pending exception, which is cleared and replaced by \<^verbatim>\<open>undefined\<close>.
  The result is the value handed to \<^verbatim>\<open>resolve\<close> and the exception left pending.
\<close>

definition convert_result_async :: "world \<Rightarrow> string option \<Rightarrow> json \<Rightarrow> jsc_value \<times> string option" where
  "convert_result_async w exc result_node =
     (if is_value_node result_node then (convert_value_node w result_node, exc)
      else if is_container_node result_node then
        (case w_json_parse w result_node of
           Inl msg \<Rightarrow> (JsUndefined, None)
         | Inr v \<Rightarrow> (if exc \<noteq> None then (JsUndefined, None) else (v, exc)))
      else if result_node = JNull then (JsNull, exc)
      else (JsUndefined, exc))"

definition async_read_callback :: "world \<Rightarrow> string \<Rightarrow> read_result \<Rightarrow> bridge \<Rightarrow> bridge" where
  "async_read_callback w ctx_call_id res s =
     (case res of
        ReadFailed err \<Rightarrow>
          (case pending_promises s ctx_call_id of
             Some promise \<Rightarrow>
               s\<lparr>effects := effects s @
                     [Called (pp_reject promise)
                        (JsString (case err of Some m \<Rightarrow> m | None \<Rightarrow> ''Failed to read response''))],
                 pending_promises := (pending_promises s)(ctx_call_id := None)\<rparr>
           | None \<Rightarrow> s)
      | ReadLine Malformed \<Rightarrow> start_next_async_request w (s\<lparr>async_inflight := False\<rparr>)
      | ReadLine (Document response_root) \<Rightarrow>
          (case pending_promises s ctx_call_id of
             None \<Rightarrow> start_next_async_request w (s\<lparr>async_inflight := False\<rparr>)
           | Some promise \<Rightarrow>
               let response_obj = json_node_get_object response_root;
                   s1 =
                     (if json_object_has_member response_obj ''error'' then
                        s\<lparr>effects := effects s @
                              [Called (pp_reject promise)
                                 (jsc_value_new_string (json_object_get_string_member response_obj ''error''))]\<rparr>
                      else if json_object_has_member response_obj ''result'' then
                        let r = convert_result_async w (js_exception s)
                                  (the (json_object_get_member response_obj ''result''))
                        in s\<lparr>js_exception := snd r,
                             effects := effects s @ [Called (pp_resolve promise) (fst r)]\<rparr>
                      else s);
                   s2 = s1\<lparr>pending_promises := (pending_promises s1)(ctx_call_id := None)\<rparr>
               in start_next_async_request w (s2\<lparr>async_inflight := False\<rparr>)))"

definition send_ipc_message_async ::
  "world \<Rightarrow> json \<Rightarrow> string \<Rightarrow> jsc_value \<Rightarrow> jsc_value \<Rightarrow> nat \<Rightarrow> bridge \<Rightarrow> bridge" where
  "send_ipc_message_async w msg cid res rej ctx s =
     (let req = \<lparr>req_message = msg, req_call_id = cid, req_resolve = res,
                 req_reject = rej, req_context = ctx\<rparr>;
          q = (case async_queue s of None \<Rightarrow> [] | Some q \<Rightarrow> q);
          s1 = s\<lparr>async_queue := Some (q @ [req])\<rparr>;
          should_start = (\<not> async_inflight s1)
      in if should_start then start_next_async_request w s1 else s1)"

text \<open>
  The main loop completes the oldest outstanding read of the asynchronous connection and
  runs \<^verbatim>\<open>async_read_callback\<close> with the context that read was started with.
\<close>

definition complete_read :: "world \<Rightarrow> read_result \<Rightarrow> bridge \<Rightarrow> bridge" where
  "complete_read w res s =
     (case async_reads s of
        [] \<Rightarrow> s
      | c # cs \<Rightarrow> async_read_callback w c res (s\<lparr>async_reads := cs\<rparr>))"

subsection \<open>Method stubs\<close>

text \<open>\<^verbatim>\<open>g_strdup_printf("%u", n)\<close>: the decimal digits of \<open>n\<close>.\<close>

fun decimal :: "nat \<Rightarrow> string" where
  "decimal n =
     (if n < 10 then [''0123456789'' ! n]
      else decimal (n div 10) @ [''0123456789'' ! (n mod 10)])"

declare decimal.simps [simp del]

text \<open>
  How a script value is added to the \<^verbatim>\<open>params\<close> array (lines 463-475 and, for the
  field setter, 668-680): strings, numbers and booleans as they are, anything else as
  the null node.
\<close>

fun argument_to_json :: "jsc_value \<Rightarrow> json" where
  "argument_to_json (JsString s) = JString s"
| "argument_to_json (JsNumber x) = JDouble x"
| "argument_to_json (JsBoolean b) = JBool b"
| "argument_to_json v = JNull"

text \<open>
  \<^verbatim>\<open>js_call_go_method\<close> takes the next call id from the counter (which wraps at \<open>2^32\<close>),
  builds the request, makes a promise with its two settling functions and hands the
  request to \<^verbatim>\<open>send_ipc_message_async\<close>. It returns the promise.
\<close>

definition js_call_go_method ::
  "world \<Rightarrow> string \<Rightarrow> jsc_value list \<Rightarrow> nat \<Rightarrow> bridge \<Rightarrow> jsc_value \<times> bridge" where
  "js_call_go_method w method_name arguments ctx s =
     (let call_id = decimal (unat (call_counter s));
          s1 = s\<lparr>call_counter := call_counter s + 1\<rparr>;
          json_str = JObject [(''id'', JString call_id), (''method'', JString method_name),
                              (''params'', JArray (map argument_to_json arguments))];
          n = js_promises s1;
          s2 = s1\<lparr>js_promises := Suc n\<rparr>
      in (JsPromise n,
          send_ipc_message_async w json_str call_id (JsFunction (PromiseResolve n))
            (JsFunction (PromiseReject n)) ctx s2))"

text \<open>The callback behind every method stub; \<open>user_data\<close> is the name the stub captured.\<close>

definition go_method_callback_variadic ::
  "world \<Rightarrow> string \<Rightarrow> jsc_value list \<Rightarrow> nat \<Rightarrow> bridge \<Rightarrow> jsc_value \<times> bridge" where
  "go_method_callback_variadic w user_data args ctx s = js_call_go_method w user_data args ctx s"

subsection \<open>The synchronous channel and the field accessors\<close>

definition connect_sync_ipc :: "world \<Rightarrow> bridge \<Rightarrow> bool \<times> bridge" where
  "connect_sync_ipc w s =
     (if sync_connection s then (True, s)
      else let ok = w_sync_connect w (sync_connects s)
           in (ok, s\<lparr>sync_connection := ok, sync_connects := Suc (sync_connects s)\<rparr>))"

text \<open>
  \<^verbatim>\<open>send_ipc_message_sync\<close> returns the line read in reply, or \<^verbatim>\<open>NULL\<close> (here \<open>None\<close>)
  when the connect, the write or the read fails.
\<close>

definition send_ipc_message_sync :: "world \<Rightarrow> json \<Rightarrow> bridge \<Rightarrow> parsed option \<times> bridge" where
  "send_ipc_message_sync w msg s =
     (let c = connect_sync_ipc w s; s1 = snd c
      in if \<not> fst c then (None, s1)
         else
           let n = sync_writes s1; s2 = s1\<lparr>sync_writes := Suc n\<rparr>
           in if \<not> w_sync_write w n then (None, s2)
              else (w_sync_read w n, s2\<lparr>effects := effects s2 @ [SyncWrote msg]\<rparr>))"

text \<open>
  The conversion of the \<^verbatim>\<open>result\<close> member in \<^verbatim>\<open>get_field_value\<close> (lines 587-628). The
  value is \<open>None\<close> where the source leaves \<^verbatim>\<open>result\<close> at \<^verbatim>\<open>NULL\<close>. The call of
  \<^verbatim>\<open>JSON.parse\<close> is not followed by a look at the context's exception: when it throws,
  the call returns \<^verbatim>\<open>undefined\<close> and the exception stays pending.
\<close>

definition convert_result_sync :: "world \<Rightarrow> string option \<Rightarrow> json \<Rightarrow> jsc_value option \<times> string option" where
  "convert_result_sync w exc result_node =
     (if is_value_node result_node then (Some (convert_value_node w result_node), exc)
      else if is_container_node result_node then
        (case w_json_parse w result_node of
           Inl msg \<Rightarrow> (Some JsUndefined, Some msg)
         | Inr v \<Rightarrow> (Some v, exc))
      else if result_node = JNull then (Some JsNull, exc)
      else (None, exc))"

definition get_field_value :: "world \<Rightarrow> string \<Rightarrow> nat \<Rightarrow> bridge \<Rightarrow> jsc_value \<times> bridge" where
  "get_field_value w field_name ctx s =
     (let id = decimal (unat (call_counter s));
          s1 = s\<lparr>call_counter := call_counter s + 1\<rparr>;
          json_str = JObject [(''id'', JString id), (''method'', JString ''__getField''),
                              (''params'', JArray [JString field_name])];
          r = send_ipc_message_sync w json_str s1;
          s2 = snd r;
          c = (case fst r of
                 None \<Rightarrow> (None, js_exception s2)
               | Some Malformed \<Rightarrow> (None, js_exception s2)
               | Some (Document response_root) \<Rightarrow>
                   let response_obj = json_node_get_object response_root
                   in if json_object_has_member response_obj ''result'' then
                        convert_result_sync w (js_exception s2)
                          (the (json_object_get_member response_obj ''result''))
                      else (None, js_exception s2))
      in (case fst c of Some v \<Rightarrow> v | None \<Rightarrow> JsUndefined, s2\<lparr>js_exception := snd c\<rparr>))"

definition set_field_value :: "world \<Rightarrow> string \<Rightarrow> jsc_value \<Rightarrow> bridge \<Rightarrow> bridge" where
  "set_field_value w field_name v s =
     (let id = decimal (unat (call_counter s));
          s1 = s\<lparr>call_counter := call_counter s + 1\<rparr>;
          json_str = JObject [(''id'', JString id), (''method'', JString ''__setField''),
                              (''params'', JArray [JString field_name, argument_to_json v])]
      in snd (send_ipc_message_sync w json_str s1))"

record field_user_data =
  field_name :: string
  field_type :: string

text \<open>The local \<^verbatim>\<open>type_valid\<close> of \<^verbatim>\<open>field_setter_callback\<close> (lines 713-735).\<close>

definition type_valid :: "string \<Rightarrow> jsc_value \<Rightarrow> bool" where
  "type_valid ftype v =
     (if ftype = ''string'' then jsc_value_is_string v
      else if ftype = ''int'' \<or> ftype = ''int8'' \<or> ftype = ''int16'' \<or> ftype = ''int32'' \<or>
              ftype = ''int64'' \<or> ftype = ''uint'' \<or> ftype = ''uint8'' \<or> ftype = ''uint16'' \<or>
              ftype = ''uint32'' \<or> ftype = ''uint64'' \<or> ftype = ''float32'' \<or>
              ftype = ''float64''
      then jsc_value_is_number v
      else if ftype = ''bool'' then jsc_value_is_boolean v
      else (jsc_value_is_object v \<or> jsc_value_is_array v))"

text \<open>The observed kind in the message of the type error (lines 743-748).\<close>

definition observed_kind :: "jsc_value \<Rightarrow> string" where
  "observed_kind v =
     (if jsc_value_is_string v then ''string''
      else if jsc_value_is_number v then ''number''
      else if jsc_value_is_boolean v then ''boolean''
      else if jsc_value_is_function v then ''function''
      else if jsc_value_is_array v then ''array''
      else if jsc_value_is_object v then ''object''
      else ''unknown'')"

text \<open>
  \<^verbatim>\<open>field_setter_callback\<close>: a value of the wrong kind throws the type error into the
  script context and nothing else happens; a value of the right kind is sent.
\<close>

definition field_setter_callback :: "world \<Rightarrow> field_user_data \<Rightarrow> jsc_value \<Rightarrow> bridge \<Rightarrow> bridge" where
  "field_setter_callback w data v s =
     (if \<not> type_valid (field_type data) v then
        s\<lparr>js_exception := Some
            (''TypeError: Cannot assign to field '' @ [CHR 0x27] @ field_name data @ [CHR 0x27] @
             '': expected '' @ field_type data @ '' but got '' @ observed_kind v)\<rparr>
      else set_field_value w (field_name data) v s)"

definition field_getter_callback_typed :: "world \<Rightarrow> field_user_data \<Rightarrow> nat \<Rightarrow> bridge \<Rightarrow> jsc_value \<times> bridge" where
  "field_getter_callback_typed w data ctx s = get_field_value w (field_name data) ctx s"

subsection \<open>Installing the bindings\<close>

text \<open>
  The window object is the list of what has been installed, each entry under the path
  of property names that leads to it from the window. \<^verbatim>\<open>inject_bindings\<close> walks the
  schema with the iterators and accessors of json-glib; where a node is not of the shape
  the walk expects, the source hands \<^verbatim>\<open>NULL\<close> to the library, and the model gives
  \<open>None\<close>: what happens then is not part of it.
\<close>

fun collect :: "('a \<Rightarrow> 'b list option) \<Rightarrow> 'a list \<Rightarrow> 'b list option" where
  "collect f [] = Some []"
| "collect f (x # xs) =
     (case f x of
        None \<Rightarrow> None
      | Some ys \<Rightarrow> (case collect f xs of None \<Rightarrow> None | Some zs \<Rightarrow> Some (ys @ zs)))"

text \<open>\<^verbatim>\<open>inject_field_property\<close>: an accessor pair that captures the field's name and type.\<close>

definition inject_field_property :: "string list \<Rightarrow> string \<Rightarrow> string \<Rightarrow> (string list \<times> binding) list" where
  "inject_field_property object fname ftype = [(object @ [fname], FieldAccessor fname ftype)]"

text \<open>
  The loop over \<^verbatim>\<open>methods\<close> of a struct (lines 928-949): the stub is installed under
  the method's name and captures \<^verbatim>\<open>g_strdup(method_name)\<close>.
\<close>

definition inject_method :: "string list \<Rightarrow> json \<Rightarrow> (string list \<times> binding) list option" where
  "inject_method struct_js_obj method_info =
     (case json_object_get_string_member (json_node_get_object method_info) ''name'' of
        None \<Rightarrow> None
      | Some method_name \<Rightarrow> Some [(struct_js_obj @ [method_name], MethodStub method_name)])"

definition inject_field :: "string list \<Rightarrow> json \<Rightarrow> (string list \<times> binding) list option" where
  "inject_field struct_js_obj field_info =
     (case (json_object_get_string_member (json_node_get_object field_info) ''name'',
            json_object_get_string_member (json_node_get_object field_info) ''type'') of
        (Some fname, Some ftype) \<Rightarrow> Some (inject_field_property struct_js_obj fname ftype)
      | _ \<Rightarrow> None)"

text \<open>\<^verbatim>\<open>json_object_get_array_member\<close> followed by a loop over the elements.\<close>

definition inject_array_member ::
  "(json \<Rightarrow> (string list \<times> binding) list option) \<Rightarrow> (string \<times> json) list \<Rightarrow> string \<Rightarrow>
   (string list \<times> binding) list option" where
  "inject_array_member f struct_data k =
     (if json_object_has_member (Some struct_data) k then
        (case json_object_get_member (Some struct_data) k of
           Some (JArray xs) \<Rightarrow> collect f xs
         | _ \<Rightarrow> None)
      else Some [])"

text \<open>The body of the loop over the structs of a package (lines 913-973).\<close>

definition inject_struct :: "string list \<Rightarrow> string \<times> json \<Rightarrow> (string list \<times> binding) list option" where
  "inject_struct pkg_js_obj member =
     (case json_node_get_object (snd member) of
        None \<Rightarrow> None
      | Some struct_data \<Rightarrow>
          let struct_js_obj = pkg_js_obj @ [fst member]
          in (case (inject_array_member (inject_method struct_js_obj) struct_data ''methods'',
                    inject_array_member (inject_field struct_js_obj) struct_data ''fields'') of
                (Some ms, Some fs) \<Rightarrow> Some ((struct_js_obj, PlainObject) # ms @ fs)
              | _ \<Rightarrow> None))"

text \<open>The body of the loop over the packages (lines 900-976).\<close>

definition inject_package :: "string \<times> json \<Rightarrow> (string list \<times> binding) list option" where
  "inject_package member =
     (case json_node_get_object (snd member) of
        None \<Rightarrow> None
      | Some pkg_obj \<Rightarrow>
          let pkg_js_obj = [''go'', fst member]
          in (case collect (inject_struct pkg_js_obj) pkg_obj of
                None \<Rightarrow> None
              | Some bs \<Rightarrow> Some ((pkg_js_obj, PlainObject) # bs)))"

text \<open>
  The walk of the \<^verbatim>\<open>strux\<close> member (lines 979-1039): the stub is installed under the
  method's name and captures \<^verbatim>\<open>strux.<namespace>.<method>\<close>.
\<close>

definition inject_strux_method :: "string \<Rightarrow> json \<Rightarrow> (string list \<times> binding) list option" where
  "inject_strux_method strux_namespace method_info =
     (case json_object_get_string_member (json_node_get_object method_info) ''name'' of
        None \<Rightarrow> None
      | Some method_name \<Rightarrow>
          Some [([''strux'', strux_namespace, method_name],
                 MethodStub (''strux.'' @ strux_namespace @ ''.'' @ method_name))])"

definition inject_strux_namespace :: "string \<times> json \<Rightarrow> (string list \<times> binding) list option" where
  "inject_strux_namespace member =
     (case json_node_get_object (snd member) of
        None \<Rightarrow> None
      | Some namespace_data \<Rightarrow>
          (case inject_array_member (inject_strux_method (fst member)) namespace_data ''methods'' of
             None \<Rightarrow> None
           | Some ms \<Rightarrow> Some (([''strux'', fst member], PlainObject) # ms)))"

definition inject_strux :: "(string \<times> json) list \<Rightarrow> (string list \<times> binding) list option" where
  "inject_strux bindings =
     (if json_object_has_member (Some bindings) ''strux'' then
        (case json_object_get_member (Some bindings) ''strux'' of
           Some (JObject strux_obj) \<Rightarrow>
             (case collect inject_strux_namespace strux_obj of
                None \<Rightarrow> None
              | Some bs \<Rightarrow> Some (([''strux''], PlainObject) # bs))
         | _ \<Rightarrow> None)
      else Some [])"

text \<open>
  \<^verbatim>\<open>inject_bindings\<close> asks for the schema with the fixed id \<^verbatim>\<open>"0"\<close> and installs what
  the \<^verbatim>\<open>result\<close> member describes; without a reply, or without that member, it installs
  nothing.
\<close>

definition inject_bindings :: "world \<Rightarrow> nat \<Rightarrow> bridge \<Rightarrow> bridge option" where
  "inject_bindings w js_context s =
     (let json_str = JObject [(''id'', JString ''0''), (''method'', JString ''__getBindings''),
                              (''params'', JNull)];
          r = send_ipc_message_sync w json_str s;
          s1 = snd r
      in (case fst r of
            None \<Rightarrow> Some s1
          | Some Malformed \<Rightarrow> Some s1
          | Some (Document response_root) \<Rightarrow>
              let response_obj = json_node_get_object response_root
              in if json_object_has_member response_obj ''result'' then
                   (case json_object_get_member response_obj ''result'' of
                      Some (JObject bindings) \<Rightarrow>
                        (case (collect inject_package bindings, inject_strux bindings) of
                           (Some ps, Some ss) \<Rightarrow>
                             Some (s1\<lparr>js_window := js_window s1 @ ([''go''], PlainObject) # ps @ ss\<rparr>)
                         | _ \<Rightarrow> None)
                    | _ \<Rightarrow> None)
                 else Some s1))"

definition inject_console_interceptors :: "nat \<Rightarrow> bridge \<Rightarrow> bridge" where
  "inject_console_interceptors js_context s =
     s\<lparr>js_window := js_window s @
          [([''__nativeLog''], NativeFunction), ([''__nativeWarn''], NativeFunction),
           ([''__nativeError''], NativeFunction), ([''__nativeErrorHandler''], NativeFunction),
           ([''__nativeUnhandledRejection''], NativeFunction)]\<rparr>"

subsection \<open>The window object is cleared\<close>

text \<open>The loop that pops and frees every queued request (lines 1220-1223).\<close>

fun drop_requests :: "async_request list \<Rightarrow> async_request list" where
  "drop_requests [] = []"
| "drop_requests (req # q) = drop_requests q"

text \<open>
  \<^verbatim>\<open>window_object_cleared_callback\<close> runs when the page gets a new script context: its
  window object is empty and no exception is pending in it. The callback empties the
  correlation table and the queue, clears the in-flight flag, and then installs the
  console interceptors and the bindings.
\<close>

definition window_object_cleared_callback :: "world \<Rightarrow> nat \<Rightarrow> bridge \<Rightarrow> bridge option" where
  "window_object_cleared_callback w js_context s =
     (let s0 = s\<lparr>js_window := [], js_exception := None\<rparr>;
          s1 = s0\<lparr>pending_promises := Map.empty\<rparr>;
          s2 = s1\<lparr>async_queue := map_option drop_requests (async_queue s1),
                  async_inflight := False\<rparr>;
          s3 = inject_console_interceptors js_context s2
      in inject_bindings w js_context s3)"

text \<open>
  The script calls the function installed under a path of the window object: for a
  method stub this runs \<^verbatim>\<open>go_method_callback_variadic\<close> with the name the stub captured.
\<close>

definition call_method_stub ::
  "world \<Rightarrow> string list \<Rightarrow> jsc_value list \<Rightarrow> nat \<Rightarrow> bridge \<Rightarrow> (jsc_value \<times> bridge) option" where
  "call_method_stub w path args ctx s =
     (case map_of (rev (js_window s)) path of
        Some (MethodStub user_data) \<Rightarrow> Some (go_method_callback_variadic w user_data args ctx s)
      | _ \<Rightarrow> None)"

subsection \<open>Notions used to state the properties\<close>

text \<open>
  The transport is down for the asynchronous channel when it is not connected and no
  attempt to connect will succeed, or when no write will succeed.
\<close>

definition transport_down :: "world \<Rightarrow> bridge \<Rightarrow> bool" where
  "transport_down w s =
     ((\<not> async_connection s \<and> (\<forall>n. \<not> w_async_connect w n)) \<or> (\<forall>n. \<not> w_async_write w n))"


text \<open>Two worlds and a family of requests to run the model on.\<close>

definition unreachable_world :: world where
  "unreachable_world =
     \<lparr>w_sync_connect = (\<lambda>n. False), w_sync_write = (\<lambda>n. False), w_sync_read = (\<lambda>n. None),
      w_async_connect = (\<lambda>n. False), w_async_write = (\<lambda>n. False),
      w_json_parse = (\<lambda>j. Inl ''SyntaxError''), w_int64_to_double = real_of_int\<rparr>"

definition sample_request :: "nat \<Rightarrow> async_request" where
  "sample_request n =
     \<lparr>req_message = JObject [(''id'', JInt (int n))], req_call_id = replicate (Suc n) CHR ''7'',
      req_resolve = JsFunction (PromiseResolve n), req_reject = JsFunction (PromiseReject n),
      req_context = 0\<rparr>"

subsection \<open>Runs of the asynchronous channel\<close>

text \<open>
  Between two events the extension is at rest. An event is a call of a method stub that
  reaches \<^verbatim>\<open>send_ipc_message_async\<close> with a request, or the completion of the
  outstanding read with some result.
\<close>

datatype event = Submit async_request | Completed read_result

fun step :: "world \<Rightarrow> bridge \<Rightarrow> event \<Rightarrow> bridge" where
  "step w s (Submit r) =
     send_ipc_message_async w (req_message r) (req_call_id r) (req_resolve r) (req_reject r)
       (req_context r) s"
| "step w s (Completed res) = complete_read w res s"

definition run :: "world \<Rightarrow> bridge \<Rightarrow> event list \<Rightarrow> bridge" where
  "run w s evs = foldl (step w) s evs"

text \<open>The transport never fails: every connect and every write succeeds.\<close>

definition reliable :: "world \<Rightarrow> bool" where
  "reliable w = (\<forall>n. w_async_connect w n \<and> w_async_write w n)"

text \<open>A reply as the protocol wants it: an object with an \<^verbatim>\<open>error\<close> or a \<^verbatim>\<open>result\<close> member.\<close>

fun well_formed_reply :: "read_result \<Rightarrow> bool" where
  "well_formed_reply (ReadLine (Document (JObject ms))) =
     (map_of ms ''error'' \<noteq> None \<or> map_of ms ''result'' \<noteq> None)"
| "well_formed_reply r = False"

text \<open>
  The trace of a fully serialized run over the requests \<open>rs\<close>: each request is written,
  its read started and one of its continuations called, before the next is written.
\<close>

fun serialized :: "async_request list \<Rightarrow> effect list \<Rightarrow> bool" where
  "serialized [] es = (es = [])"
| "serialized (r # rs) (AsyncWrote m # AsyncReadStarted c # Called f v # es) =
     (m = req_message r \<and> c = req_call_id r \<and> (f = req_resolve r \<or> f = req_reject r) \<and>
      serialized rs es)"
| "serialized (r # rs) es = False"

fun settled_then :: "async_request \<Rightarrow> async_request list \<Rightarrow> effect list \<Rightarrow> bool" where
  "settled_then r rs (Called f v # es) = ((f = req_resolve r \<or> f = req_reject r) \<and> serialized rs es)"
| "settled_then r rs es = False"

definition reliable_world :: world where
  "reliable_world =
     \<lparr>w_sync_connect = (\<lambda>n. True), w_sync_write = (\<lambda>n. True), w_sync_read = (\<lambda>n. None),
      w_async_connect = (\<lambda>n. True), w_async_write = (\<lambda>n. True),
      w_json_parse = (\<lambda>j. Inl ''SyntaxError''), w_int64_to_double = real_of_int\<rparr>"

text \<open>The number of requests written and not settled at the end of a trace.\<close>

fun in_flight :: "effect list \<Rightarrow> int" where
  "in_flight [] = 0"
| "in_flight (AsyncWrote m # es) = in_flight es + 1"
| "in_flight (Called f v # es) = in_flight es - 1"
| "in_flight (e # es) = in_flight es"

text \<open>The channel at rest, and busy with the request \<open>r\<close> while \<open>rs\<close> wait.\<close>

definition idle :: "bridge \<Rightarrow> bool" where
  "idle s = (\<not> async_inflight s \<and> (async_queue s = None \<or> async_queue s = Some []) \<and> async_reads s = [])"

definition busy_with :: "async_request \<Rightarrow> async_request list \<Rightarrow> bridge \<Rightarrow> bool" where
  "busy_with r rs s =
     (async_inflight s \<and> async_queue s = Some rs \<and> async_reads s = [req_call_id r] \<and>
      pending_promises s (req_call_id r) =
        Some \<lparr>pp_resolve = req_resolve r, pp_reject = req_reject r, pp_context = req_context r\<rparr>)"

definition settles :: "async_request \<Rightarrow> effect \<Rightarrow> bool" where
  "settles r e = (\<exists>v. e = Called (req_resolve r) v \<or> e = Called (req_reject r) v)"



text \<open>
  The synchronous channel takes the next line: it is connected or the next attempt to
  connect succeeds, and the next write succeeds.
\<close>

definition sync_accepts :: "world \<Rightarrow> bridge \<Rightarrow> bool" where
  "sync_accepts w s =
     ((sync_connection s \<or> w_sync_connect w (sync_connects s)) \<and>
      w_sync_write w (sync_writes s))"

text \<open>The requests the field accessors, the schema fetch and a method stub build.\<close>

definition set_field_request :: "bridge \<Rightarrow> string \<Rightarrow> jsc_value \<Rightarrow> json" where
  "set_field_request s fname v =
     JObject [(''id'', JString (decimal (unat (call_counter s)))), (''method'', JString ''__setField''),
              (''params'', JArray [JString fname, argument_to_json v])]"

definition get_field_request :: "bridge \<Rightarrow> string \<Rightarrow> json" where
  "get_field_request s fname =
     JObject [(''id'', JString (decimal (unat (call_counter s)))), (''method'', JString ''__getField''),
              (''params'', JArray [JString fname])]"

definition bindings_request :: json where
  "bindings_request =
     JObject [(''id'', JString ''0''), (''method'', JString ''__getBindings''), (''params'', JNull)]"

definition stub_request :: "bridge \<Rightarrow> string \<Rightarrow> jsc_value list \<Rightarrow> nat \<Rightarrow> async_request" where
  "stub_request s method_name args ctx =
     \<lparr>req_message = JObject [(''id'', JString (decimal (unat (call_counter s)))),
                             (''method'', JString method_name),
                             (''params'', JArray (map argument_to_json args))],
      req_call_id = decimal (unat (call_counter s)),
      req_resolve = JsFunction (PromiseResolve (js_promises s)),
      req_reject = JsFunction (PromiseReject (js_promises s)),
      req_context = ctx\<rparr>"

text \<open>A schema with one package, one struct, one method and one field, and a backend that serves it.\<close>

definition demo_packages :: "(string \<times> json) list" where
  "demo_packages =
     [(''main'', JObject [(''App'', JObject
        [(''methods'', JArray [JObject [(''name'', JString ''Greet'')]]),
         (''fields'', JArray [JObject [(''name'', JString ''Count''), (''type'', JString ''int32'')]])])])]"

definition demo_world :: world where
  "demo_world =
     reliable_world\<lparr>w_sync_read := (\<lambda>n. Some (Document (JObject [(''result'', JObject demo_packages)])))\<rparr>"

text \<open>A backend that answers every synchronous request with the given line.\<close>

definition answering :: "json \<Rightarrow> world" where
  "answering reply = reliable_world\<lparr>w_sync_read := (\<lambda>n. Some (Document reply))\<rparr>"

definition count_field :: field_user_data where
  "count_field = \<lparr>field_name = ''Count'', field_type = ''int32''\<rparr>"

text \<open>
  The shape of a schema that the walk of \<^verbatim>\<open>inject_bindings\<close> expects: every package and
  every struct is an object, \<^verbatim>\<open>methods\<close> and \<^verbatim>\<open>fields\<close>, where present, are arrays of
  objects that name each method and name and type each field, and \<^verbatim>\<open>strux\<close>, where
  present, is an object of such namespaces. A reply to the schema request is in order
  when it is missing, does not parse, has no \<^verbatim>\<open>result\<close> member or has one of this shape.
\<close>

definition method_info_ok :: "json \<Rightarrow> bool" where
  "method_info_ok j = (json_object_get_string_member (json_node_get_object j) ''name'' \<noteq> None)"

definition field_info_ok :: "json \<Rightarrow> bool" where
  "field_info_ok j =
     (json_object_get_string_member (json_node_get_object j) ''name'' \<noteq> None \<and>
      json_object_get_string_member (json_node_get_object j) ''type'' \<noteq> None)"

definition array_member_ok :: "(json \<Rightarrow> bool) \<Rightarrow> (string \<times> json) list \<Rightarrow> string \<Rightarrow> bool" where
  "array_member_ok p ms k =
     (case map_of ms k of None \<Rightarrow> True | Some (JArray xs) \<Rightarrow> list_all p xs | Some j \<Rightarrow> False)"

definition struct_ok :: "string \<times> json \<Rightarrow> bool" where
  "struct_ok member =
     (case snd member of
        JObject ms \<Rightarrow> array_member_ok method_info_ok ms ''methods'' \<and>
                      array_member_ok field_info_ok ms ''fields''
      | j \<Rightarrow> False)"

definition package_ok :: "string \<times> json \<Rightarrow> bool" where
  "package_ok member = (case snd member of JObject structs \<Rightarrow> list_all struct_ok structs | j \<Rightarrow> False)"

definition namespace_ok :: "string \<times> json \<Rightarrow> bool" where
  "namespace_ok member =
     (case snd member of JObject ms \<Rightarrow> array_member_ok method_info_ok ms ''methods'' | j \<Rightarrow> False)"

definition schema_ok :: "(string \<times> json) list \<Rightarrow> bool" where
  "schema_ok bindings =
     (list_all package_ok bindings \<and>
      (case map_of bindings ''strux'' of
         None \<Rightarrow> True
       | Some (JObject nss) \<Rightarrow> list_all namespace_ok nss
       | Some j \<Rightarrow> False))"

definition bindings_reply_ok :: "parsed option \<Rightarrow> bool" where
  "bindings_reply_ok reply =
     (case reply of
        None \<Rightarrow> True
      | Some Malformed \<Rightarrow> True
      | Some (Document response_root) \<Rightarrow>
          (case json_object_get_member (json_node_get_object response_root) ''result'' of
             None \<Rightarrow> True
           | Some (JObject bindings) \<Rightarrow> schema_ok bindings
           | Some j \<Rightarrow> False))"

text \<open>
  The methods a schema declares, read off the schema itself: for every package that is
  an object and every struct of it that is an object, the names of the entries of its
  \<^verbatim>\<open>methods\<close> array, each with its package and struct; and likewise the methods of
  the namespaces of the \<^verbatim>\<open>strux\<close> member. \<open>go_stub\<close> and \<open>strux_stub\<close> are the stubs
  these methods are to get: the first captures the short name, the second the name
  qualified with \<^verbatim>\<open>strux\<close> and the namespace.
\<close>

fun declared_names :: "json list \<Rightarrow> string list" where
  "declared_names [] = []"
| "declared_names (info # infos) =
     (case json_object_get_string_member (json_node_get_object info) ''name'' of
        None \<Rightarrow> declared_names infos
      | Some n \<Rightarrow> n # declared_names infos)"

definition declared_methods_of :: "json \<Rightarrow> string list" where
  "declared_methods_of node =
     (case node of
        JObject ms \<Rightarrow> (case map_of ms ''methods'' of Some (JArray infos) \<Rightarrow> declared_names infos | _ \<Rightarrow> [])
      | _ \<Rightarrow> [])"

definition declared_package_methods :: "string \<times> json \<Rightarrow> (string \<times> string \<times> string) list" where
  "declared_package_methods member =
     (case snd member of
        JObject structs \<Rightarrow>
          concat (map (\<lambda>st. map (\<lambda>m. (fst member, fst st, m)) (declared_methods_of (snd st))) structs)
      | _ \<Rightarrow> [])"

definition declared_methods :: "(string \<times> json) list \<Rightarrow> (string \<times> string \<times> string) list" where
  "declared_methods bindings = concat (map declared_package_methods bindings)"

definition declared_strux_methods :: "(string \<times> json) list \<Rightarrow> (string \<times> string) list" where
  "declared_strux_methods bindings =
     (case map_of bindings ''strux'' of
        Some (JObject nss) \<Rightarrow>
          concat (map (\<lambda>ns. map (\<lambda>m. (fst ns, m)) (declared_methods_of (snd ns))) nss)
      | _ \<Rightarrow> [])"

definition go_stub :: "string \<times> string \<times> string \<Rightarrow> string list \<times> binding" where
  "go_stub d = ([''go'', fst d, fst (snd d), snd (snd d)], MethodStub (snd (snd d)))"

definition strux_stub :: "string \<times> string \<Rightarrow> string list \<times> binding" where
  "strux_stub d = ([''strux'', fst d, snd d], MethodStub (''strux.'' @ fst d @ ''.'' @ snd d))"

fun is_method_stub :: "string list \<times> binding \<Rightarrow> bool" where
  "is_method_stub (path, MethodStub user_data) = True"
| "is_method_stub b = False"

text \<open>A schema that also has the reserved member.\<close>

definition demo_strux_packages :: "(string \<times> json) list" where
  "demo_strux_packages =
     [(''main'', JObject [(''App'', JObject
        [(''methods'', JArray [JObject [(''name'', JString ''Greet'')]]),
         (''fields'', JArray [JObject [(''name'', JString ''Count''), (''type'', JString ''int32'')]])])]),
      (''strux'', JObject [(''boot'', JObject
        [(''methods'', JArray [JObject [(''name'', JString ''Reboot'')]])])])]"

subsection \<open>Runs of the page\<close>






section \<open>Properties of the asynchronous queue\<close>

subsection \<open>One step of \<^verbatim>\<open>start_next_async_request\<close>\<close>

lemma start_next_idle:
  "async_inflight s \<or> async_queue s = None \<or> async_queue s = Some [] \<Longrightarrow>
   start_next_async_request w s = s"
  by (subst start_next_async_request.simps) (auto simp: queue_length_def)

lemma start_next_connect_fails:
  assumes "\<not> async_inflight s" "async_queue s = Some (req # rest)"
    "\<not> fst (connect_async_ipc w s)"
  shows "start_next_async_request w s =
         start_next_async_request w
           ((snd (connect_async_ipc w s))\<lparr>async_queue := Some rest, async_inflight := False,
              effects := effects s @ [Called (req_reject req) (JsString ''Failed to connect to IPC'')]\<rparr>)"
  using assms
  apply (subst start_next_async_request.simps)
  apply (cases s)
  apply (auto simp add: queue_length_def connect_async_ipc_def Let_def split: if_splits)
  done


lemma start_next_written:
  assumes "\<not> async_inflight s" "async_queue s = Some (req # rest)"
    "fst (connect_async_ipc w s)" "w_async_write w (async_writes s)"
  shows "start_next_async_request w s =
           (snd (connect_async_ipc w s))\<lparr>async_queue := Some rest, async_inflight := True,
              pending_promises := (pending_promises s)(req_call_id req \<mapsto>
                 \<lparr>pp_resolve = req_resolve req, pp_reject = req_reject req,
                  pp_context = req_context req\<rparr>),
              async_writes := Suc (async_writes s),
              effects := effects s @ [AsyncWrote (req_message req), AsyncReadStarted (req_call_id req)],
              async_reads := async_reads s @ [req_call_id req]\<rparr>"
  using assms
  apply (subst start_next_async_request.simps)
  apply (cases s)
  apply (auto simp add: queue_length_def connect_async_ipc_def Let_def split: if_splits)
  done

lemma connect_async_ipc_fields [simp]:
  "async_queue (snd (connect_async_ipc w s)) = async_queue s"
  "async_inflight (snd (connect_async_ipc w s)) = async_inflight s"
  "effects (snd (connect_async_ipc w s)) = effects s"
  "async_reads (snd (connect_async_ipc w s)) = async_reads s"
  "pending_promises (snd (connect_async_ipc w s)) = pending_promises s"
  "async_writes (snd (connect_async_ipc w s)) = async_writes s"
  by (simp_all add: connect_async_ipc_def Let_def)

subsection \<open>A transport that is down\<close>


lemma transport_down_upd [simp]:
  "transport_down w (s\<lparr>async_queue := q\<rparr>) = transport_down w s"
  "transport_down w (s\<lparr>async_inflight := b\<rparr>) = transport_down w s"
  "transport_down w (s\<lparr>effects := es\<rparr>) = transport_down w s"
  "transport_down w (s\<lparr>pending_promises := pp\<rparr>) = transport_down w s"
  "transport_down w (s\<lparr>async_writes := n\<rparr>) = transport_down w s"
  by (simp_all add: transport_down_def)



text \<open>
  The queue drained by an unreachable transport, as a state: every request is rejected
  with the connect message and only the queue, the attempt counter and the effects
  change.
\<close>

lemma drain_unreachable:
  assumes "\<forall>n. \<not> w_async_connect w n"
  shows "\<not> async_connection s \<Longrightarrow> \<not> async_inflight s \<Longrightarrow> async_queue s = Some q \<Longrightarrow>
     start_next_async_request w s =
       s\<lparr>async_queue := Some [], async_connects := async_connects s + length q,
          effects := effects s @
            map (\<lambda>r. Called (req_reject r) (JsString ''Failed to connect to IPC'')) q\<rparr>"
proof (induction q arbitrary: s)
  case Nil
  then show ?case by (cases s) (simp add: start_next_idle)
next
  case (Cons r q)
  have nc: "\<not> fst (connect_async_ipc w s)"
    using assms Cons.prems(1) by (simp add: connect_async_ipc_def Let_def)
  let ?s' = "(snd (connect_async_ipc w s))\<lparr>async_queue := Some q, async_inflight := False,
              effects := effects s @ [Called (req_reject r) (JsString ''Failed to connect to IPC'')]\<rparr>"
  have eq: "start_next_async_request w s = start_next_async_request w ?s'"
    by (rule start_next_connect_fails [OF Cons.prems(2) Cons.prems(3) nc])
  have ih: "start_next_async_request w ?s' =
       ?s'\<lparr>async_queue := Some [], async_connects := async_connects ?s' + length q,
          effects := effects ?s' @
            map (\<lambda>r. Called (req_reject r) (JsString ''Failed to connect to IPC'')) q\<rparr>"
    by (rule Cons.IH) (use Cons.prems assms in \<open>simp_all add: connect_async_ipc_def Let_def\<close>)
  show ?case
    unfolding eq ih
    using Cons.prems assms
    by (cases s) (simp add: connect_async_ipc_def Let_def)
qed

text \<open>
  C10. When the connect fails for the request at the head of the queue, the retry of
  \<^verbatim>\<open>start_next_async_request\<close> runs on a state whose correlation table is the one
  before the dispatch: the failure continuation has been called and no entry was
  inserted. When every connect fails, the table at the end of the cascade is still the
  same.
\<close>

theorem connect_failure_leaves_table_unchanged:
  assumes "\<not> async_inflight s" and "async_queue s = Some (req # rest)"
    and "\<not> async_connection s" and "\<not> w_async_connect w (async_connects s)"
  shows "start_next_async_request w s =
           start_next_async_request w
             (s\<lparr>async_queue := Some rest, async_inflight := False, async_connection := False,
                async_connects := Suc (async_connects s),
                effects := effects s @
                  [Called (req_reject req) (JsString ''Failed to connect to IPC'')]\<rparr>) \<and>
         pending_promises
             (s\<lparr>async_queue := Some rest, async_inflight := False, async_connection := False,
                async_connects := Suc (async_connects s),
                effects := effects s @
                  [Called (req_reject req) (JsString ''Failed to connect to IPC'')]\<rparr>)
           = pending_promises s \<and>
         ((\<forall>n. \<not> w_async_connect w n) \<longrightarrow>
            pending_promises (start_next_async_request w s) = pending_promises s)"
proof -
  have nc: "\<not> fst (connect_async_ipc w s)"
    using assms by (simp add: connect_async_ipc_def Let_def)
  have step: "start_next_async_request w s =
           start_next_async_request w
             (s\<lparr>async_queue := Some rest, async_inflight := False, async_connection := False,
                async_connects := Suc (async_connects s),
                effects := effects s @
                  [Called (req_reject req) (JsString ''Failed to connect to IPC'')]\<rparr>)"
    apply (subst start_next_connect_fails [OF assms(1) assms(2) nc])
    using assms apply (cases s)
    apply (simp add: connect_async_ipc_def Let_def)
    done
  have all: "pending_promises (start_next_async_request w s) = pending_promises s"
    if "\<forall>n. \<not> w_async_connect w n"
    by (subst drain_unreachable [OF that assms(3) assms(1) assms(2)]) simp
  show ?thesis using step all by simp
qed

theorem connect_failure_leaves_table_unchanged_witness:
  "\<not> w_async_connect unreachable_world 0 \<and>
   pending_promises (start_next_async_request unreachable_world
      (initial_bridge\<lparr>async_queue := Some [sample_request 0, sample_request 1]\<rparr>)) = Map.empty"
proof -
  let ?s = "initial_bridge\<lparr>async_queue := Some [sample_request 0, sample_request 1]\<rparr>"
  have h1: "\<not> async_inflight ?s" by (simp add: initial_bridge_def)
  have h2: "async_queue ?s = Some (sample_request 0 # [sample_request 1])" by simp
  have h3: "\<not> async_connection ?s" by (simp add: initial_bridge_def)
  have h4: "\<not> w_async_connect unreachable_world (async_connects ?s)"
    by (simp add: unreachable_world_def)
  have u: "\<forall>n. \<not> w_async_connect unreachable_world n"
    by (simp add: unreachable_world_def)
  have "pending_promises (start_next_async_request unreachable_world ?s) = pending_promises ?s"
    using connect_failure_leaves_table_unchanged [OF h1 h2 h3 h4] u by blast
  then show ?thesis using u by (simp add: initial_bridge_def)
qed

subsection \<open>A transport that never fails\<close>

lemma reliable_connect: "reliable w \<Longrightarrow> fst (connect_async_ipc w s)"
  by (simp add: reliable_def connect_async_ipc_def Let_def)

lemma in_flight_append_serialized:
  "serialized rs es \<Longrightarrow> in_flight (take n es) = 0 \<or> in_flight (take n es) = 1"
proof (induction rs es arbitrary: n rule: serialized.induct)
  case (2 r rs m c f v es)
  then have ih: "\<And>k. in_flight (take k es) = 0 \<or> in_flight (take k es) = 1" by simp
  show ?case
  proof (cases n)
    case 0 then show ?thesis by simp
  next
    case (Suc a)
    show ?thesis
    proof (cases a)
      case 0 then show ?thesis using Suc by simp
    next
      case (Suc b)
      note Sb = this
      show ?thesis
      proof (cases b)
        case 0 then show ?thesis using Sb \<open>n = Suc a\<close> by simp
      next
        case (Suc c')
        then show ?thesis using Sb \<open>n = Suc a\<close> ih [of c'] by simp
      qed
    qed
  qed
qed simp_all

lemma start_next_dispatch:
  assumes "reliable w" "\<not> async_inflight s" "async_queue s = Some (r # rs)" "async_reads s = []"
  shows "busy_with r rs (start_next_async_request w s) \<and>
         effects (start_next_async_request w s) =
           effects s @ [AsyncWrote (req_message r), AsyncReadStarted (req_call_id r)]"
proof -
  have c: "fst (connect_async_ipc w s)" by (rule reliable_connect [OF assms(1)])
  have wr: "w_async_write w (async_writes s)" using assms(1) by (simp add: reliable_def)
  show ?thesis
    by (subst (1 2) start_next_written [OF assms(2) assms(3) c wr])
       (simp add: busy_with_def assms(4))
qed

lemma submit_busy:
  assumes "busy_with r q s"
  shows "busy_with r (q @ [x]) (step w s (Submit x)) \<and> effects (step w s (Submit x)) = effects s"
  using assms by (simp add: busy_with_def send_ipc_message_async_def Let_def)

lemma submit_all_busy:
  "busy_with r q s \<Longrightarrow>
     busy_with r (q @ xs) (run w s (map Submit xs)) \<and> effects (run w s (map Submit xs)) = effects s"
proof (induction xs arbitrary: q s)
  case Nil
  then show ?case by (simp add: run_def)
next
  case (Cons x xs)
  have b: "busy_with r (q @ [x]) (step w s (Submit x))"
    and e: "effects (step w s (Submit x)) = effects s"
    using submit_busy [OF Cons.prems] by simp_all
  have "run w s (map Submit (x # xs)) = run w (step w s (Submit x)) (map Submit xs)"
    by (simp add: run_def)
  then show ?case using Cons.IH [OF b] e by simp
qed

lemma submit_idle:
  assumes "reliable w" "idle s"
  shows "busy_with r [] (step w s (Submit r)) \<and>
         effects (step w s (Submit r)) =
           effects s @ [AsyncWrote (req_message r), AsyncReadStarted (req_call_id r)]"
proof -
  let ?req = "\<lparr>req_message = req_message r, req_call_id = req_call_id r, req_resolve = req_resolve r,
                 req_reject = req_reject r, req_context = req_context r\<rparr>"
  have rr: "?req = r" by simp
  let ?s1 = "s\<lparr>async_queue := Some ([] @ [r])\<rparr>"
  have st: "step w s (Submit r) = start_next_async_request w ?s1"
    using assms(2) by (auto simp: idle_def send_ipc_message_async_def Let_def rr)
  have "busy_with r [] (start_next_async_request w ?s1) \<and>
         effects (start_next_async_request w ?s1) =
           effects ?s1 @ [AsyncWrote (req_message r), AsyncReadStarted (req_call_id r)]"
    by (rule start_next_dispatch [OF assms(1)]) (use assms(2) in \<open>simp_all add: idle_def\<close>)
  then show ?thesis using st by simp
qed

lemma reply_settles:
  assumes "busy_with r rs s" "well_formed_reply rep"
  shows "\<exists>e t. settles r e \<and> effects t = effects s @ [e] \<and> \<not> async_inflight t \<and>
            async_queue t = Some rs \<and> async_reads t = [] \<and>
            complete_read w rep s = start_next_async_request w t"
proof -
  obtain ms where rep: "rep = ReadLine (Document (JObject ms))"
    and mem: "map_of ms ''error'' \<noteq> None \<or> map_of ms ''result'' \<noteq> None"
    using assms(2) by (elim well_formed_reply.elims) auto
  let ?p = "\<lparr>pp_resolve = req_resolve r, pp_reject = req_reject r, pp_context = req_context r\<rparr>"
  let ?s0 = "s\<lparr>async_reads := []\<rparr>"
  have cr: "complete_read w rep s = async_read_callback w (req_call_id r) rep ?s0"
    using assms(1) by (simp add: complete_read_def busy_with_def)
  have look: "pending_promises ?s0 (req_call_id r) = Some ?p"
    using assms(1) by (simp add: busy_with_def)
  show ?thesis
  proof (cases "map_of ms ''error'' \<noteq> None")
    case True
    let ?e = "Called (req_reject r) (jsc_value_new_string (json_object_get_string_member (Some ms) ''error''))"
    let ?t = "?s0\<lparr>effects := effects s @ [?e],
                 pending_promises := (pending_promises s)(req_call_id r := None),
                 async_inflight := False\<rparr>"
    have "async_read_callback w (req_call_id r) rep ?s0 = start_next_async_request w ?t"
      using True look by (simp add: async_read_callback_def rep Let_def)
    moreover have "settles r ?e" by (auto simp: settles_def)
    moreover have "effects ?t = effects s @ [?e]" by simp
    moreover have "\<not> async_inflight ?t \<and> async_queue ?t = Some rs \<and> async_reads ?t = []"
      using assms(1) by (simp add: busy_with_def)
    ultimately show ?thesis using cr by metis
  next
    case False
    then have res: "map_of ms ''result'' \<noteq> None" using mem by simp
    let ?r = "convert_result_async w (js_exception s) (the (map_of ms ''result''))"
    let ?e = "Called (req_resolve r) (fst ?r)"
    let ?t = "?s0\<lparr>js_exception := snd ?r, effects := effects s @ [?e],
                 pending_promises := (pending_promises s)(req_call_id r := None),
                 async_inflight := False\<rparr>"
    have "async_read_callback w (req_call_id r) rep ?s0 = start_next_async_request w ?t"
      using False res look by (simp add: async_read_callback_def rep Let_def)
    moreover have "settles r ?e" by (auto simp: settles_def)
    moreover have "effects ?t = effects s @ [?e]" by simp
    moreover have "\<not> async_inflight ?t \<and> async_queue ?t = Some rs \<and> async_reads ?t = []"
      using assms(1) by (simp add: busy_with_def)
    ultimately show ?thesis using cr by metis
  qed
qed

lemma settles_settled_then:
  "settles r e \<Longrightarrow> serialized rs es \<Longrightarrow> settled_then r rs (e # es)"
  by (auto simp: settles_def)

lemma replies_drain:
  "reliable w \<Longrightarrow> busy_with r rs s \<Longrightarrow> length reps = Suc (length rs) \<Longrightarrow>
   list_all well_formed_reply reps \<Longrightarrow>
     \<exists>es. effects (run w s (map Completed reps)) = effects s @ es \<and> settled_then r rs es \<and>
          idle (run w s (map Completed reps))"
proof (induction rs arbitrary: r s reps)
  case Nil
  then obtain rep where reps: "reps = [rep]" by (cases reps) auto
  then have wf: "well_formed_reply rep" using Nil.prems(4) by simp
  obtain e t where et: "settles r e" "effects t = effects s @ [e]" "\<not> async_inflight t"
      "async_queue t = Some []" "async_reads t = []"
      "complete_read w rep s = start_next_async_request w t"
    using reply_settles [OF Nil.prems(2) wf] by blast
  have "start_next_async_request w t = t" using et(4) by (simp add: start_next_idle)
  then have fin: "run w s (map Completed reps) = t" using et(6) reps by (simp add: run_def)
  have "settled_then r [] [e]" using et(1) by (simp add: settles_settled_then)
  then show ?case using fin et by (auto simp: idle_def)
next
  case (Cons r' rs)
  then obtain rep reps' where reps: "reps = rep # reps'" by (cases reps) auto
  then have wf: "well_formed_reply rep" and wfs: "list_all well_formed_reply reps'"
    and len: "length reps' = Suc (length rs)"
    using Cons.prems by simp_all
  obtain e t where et: "settles r e" "effects t = effects s @ [e]" "\<not> async_inflight t"
      "async_queue t = Some (r' # rs)" "async_reads t = []"
      "complete_read w rep s = start_next_async_request w t"
    using reply_settles [OF Cons.prems(2) wf] by blast
  let ?u = "start_next_async_request w t"
  have d: "busy_with r' rs ?u \<and>
           effects ?u = effects t @ [AsyncWrote (req_message r'), AsyncReadStarted (req_call_id r')]"
    by (rule start_next_dispatch [OF Cons.prems(1) et(3) et(4) et(5)])
  then have b: "busy_with r' rs ?u" by simp
  obtain es where es: "effects (run w ?u (map Completed reps')) = effects ?u @ es"
      "settled_then r' rs es" "idle (run w ?u (map Completed reps'))"
    using Cons.IH [OF Cons.prems(1) b len wfs] by blast
  have runeq: "run w s (map Completed reps) = run w ?u (map Completed reps')"
    using reps et(6) by (simp add: run_def)
  obtain f v es' where es': "es = Called f v # es'" "f = req_resolve r' \<or> f = req_reject r'"
      "serialized rs es'"
    using es(2) by (elim settled_then.elims) auto
  have ser: "serialized (r' # rs)
      (AsyncWrote (req_message r') # AsyncReadStarted (req_call_id r') # es)"
    using es' by simp
  have "effects (run w s (map Completed reps)) =
          effects s @ (e # AsyncWrote (req_message r') # AsyncReadStarted (req_call_id r') # es)"
    using runeq es(1) d et(2) by simp
  moreover have "settled_then r (r' # rs)
      (e # AsyncWrote (req_message r') # AsyncReadStarted (req_call_id r') # es)"
    by (rule settles_settled_then [OF et(1) ser])
  ultimately show ?case using es(3) runeq by metis
qed

text \<open>
  C3, as amended. Over a transport that never fails, let \<open>N\<close> requests be submitted to
  a channel at rest before any reply is read, and let then \<open>N\<close> replies arrive, each of
  them an object with an \<^verbatim>\<open>error\<close> or a \<^verbatim>\<open>result\<close> member. The
  effects of the run are, request by request in the order of submission: the request is
  written, its read is started, one of its two continuations is called; so each
  continuation is settled before the next request is written. At every point of the
  trace at most one request is written and not settled, and the channel ends at rest.
\<close>

theorem async_calls_are_serialized:
  assumes "reliable w" and "idle s" and "length reps = length reqs"
    and "list_all well_formed_reply reps"
  shows "\<exists>es. effects (run w s (map Submit reqs @ map Completed reps)) = effects s @ es \<and>
           serialized reqs es \<and>
           (\<forall>n. in_flight (take n es) = 0 \<or> in_flight (take n es) = 1) \<and>
           idle (run w s (map Submit reqs @ map Completed reps))"
proof (cases reqs)
  case Nil
  then show ?thesis using assms by (simp add: run_def)
next
  case (Cons r rs)
  let ?a = "step w s (Submit r)"
  let ?b = "run w ?a (map Submit rs)"
  have a: "busy_with r [] ?a"
    and ea: "effects ?a = effects s @ [AsyncWrote (req_message r), AsyncReadStarted (req_call_id r)]"
    using submit_idle [OF assms(1) assms(2)] by simp_all
  have b: "busy_with r rs ?b" and eb: "effects ?b = effects ?a"
    using submit_all_busy [OF a, of rs w] by simp_all
  have len: "length reps = Suc (length rs)" using assms(3) Cons by simp
  obtain es where es: "effects (run w ?b (map Completed reps)) = effects ?b @ es"
      "settled_then r rs es" "idle (run w ?b (map Completed reps))"
    using replies_drain [OF assms(1) b len assms(4)] by blast
  have runeq: "run w s (map Submit reqs @ map Completed reps) = run w ?b (map Completed reps)"
    using Cons by (simp add: run_def)
  obtain f v es' where es': "es = Called f v # es'" "f = req_resolve r \<or> f = req_reject r"
      "serialized rs es'"
    using es(2) by (elim settled_then.elims) auto
  let ?es = "AsyncWrote (req_message r) # AsyncReadStarted (req_call_id r) # es"
  have ser: "serialized reqs ?es" using es' Cons by simp
  have eff: "effects (run w s (map Submit reqs @ map Completed reps)) = effects s @ ?es"
    using runeq es(1) eb ea by simp
  have fl: "\<forall>n. in_flight (take n ?es) = 0 \<or> in_flight (take n ?es) = 1"
    using in_flight_append_serialized [OF ser] by blast
  show ?thesis using eff ser fl es(3) runeq by metis
qed

theorem async_calls_are_serialized_witness:
  "reliable reliable_world \<and> idle initial_bridge \<and>
   (\<exists>es. effects (run reliable_world initial_bridge
             (map Submit [sample_request 0, sample_request 1] @
              map Completed [ReadLine (Document (JObject [(''result'', JInt 42)])),
                             ReadLine (Document (JObject [(''error'', JString ''boom'')]))])) = es \<and>
      serialized [sample_request 0, sample_request 1] es \<and>
      (\<forall>n. in_flight (take n es) = 0 \<or> in_flight (take n es) = 1))"
proof -
  have r: "reliable reliable_world" by (simp add: reliable_def reliable_world_def)
  have i: "idle initial_bridge" by (simp add: idle_def initial_bridge_def)
  have e: "effects initial_bridge = []" by (simp add: initial_bridge_def)
  show ?thesis
    using async_calls_are_serialized [OF r i,
        of "[ReadLine (Document (JObject [(''result'', JInt 42)])),
             ReadLine (Document (JObject [(''error'', JString ''boom'')]))]"
           "[sample_request 0, sample_request 1]"] r i e
    by simp
qed

subsection \<open>Evaluating runs\<close>

lemmas run_simps = run_def send_ipc_message_async_def complete_read_def async_read_callback_def
  start_next_async_request.simps connect_async_ipc_def queue_length_def Let_def
  initial_bridge_def reliable_world_def sample_request_def

text \<open>
  Two calls and their replies, over a transport that never fails: the first is resolved
  with the number of its \<^verbatim>\<open>result\<close> member before the second is written, and the second
  is rejected with the message of its \<^verbatim>\<open>error\<close> member.
\<close>

lemma two_calls_trace:
  "effects (run reliable_world initial_bridge
             (map Submit [sample_request 0, sample_request 1] @
              map Completed [ReadLine (Document (JObject [(''result'', JInt 42)])),
                             ReadLine (Document (JObject [(''error'', JString ''boom'')]))])) =
    [AsyncWrote (JObject [(''id'', JInt 0)]), AsyncReadStarted ''7'',
     Called (JsFunction (PromiseResolve 0)) (JsNumber 42),
     AsyncWrote (JObject [(''id'', JInt 1)]), AsyncReadStarted ''77'',
     Called (JsFunction (PromiseReject 1)) (JsString ''boom'')]"
  by (simp add: run_simps convert_result_async_def)

lemma two_submitted:
  "busy_with (sample_request 0) [sample_request 1]
     (run reliable_world initial_bridge [Submit (sample_request 0), Submit (sample_request 1)])"
  by (simp add: run_simps busy_with_def)

text \<open>
  Without the condition on the replies the claim fails: when the first reply does not
  parse, the first request is never settled; the second request is written while the
  first is written and unsettled, and only the second is resolved.
\<close>

theorem async_calls_counterexample:
  "reliable reliable_world \<and> idle initial_bridge \<and>
   effects (run reliable_world initial_bridge
      (map Submit [sample_request 0, sample_request 1] @
       map Completed [ReadLine Malformed, ReadLine (Document (JObject [(''result'', JInt 42)]))])) =
     [AsyncWrote (req_message (sample_request 0)), AsyncReadStarted (req_call_id (sample_request 0)),
      AsyncWrote (req_message (sample_request 1)), AsyncReadStarted (req_call_id (sample_request 1)),
      Called (req_resolve (sample_request 1)) (JsNumber 42)] \<and>
   \<not> serialized [sample_request 0, sample_request 1]
      (effects (run reliable_world initial_bridge
        (map Submit [sample_request 0, sample_request 1] @
         map Completed [ReadLine Malformed, ReadLine (Document (JObject [(''result'', JInt 42)]))]))) \<and>
   in_flight (take 3 (effects (run reliable_world initial_bridge
        (map Submit [sample_request 0, sample_request 1] @
         map Completed [ReadLine Malformed, ReadLine (Document (JObject [(''result'', JInt 42)]))])))) = 2"
  by (simp add: run_simps convert_result_async_def reliable_def idle_def)

subsection \<open>The in-flight flag\<close>





subsection \<open>A read that fails\<close>

lemma stalled_step:
  assumes "async_inflight s" "async_reads s = []"
  shows "async_inflight (step w s e) \<and> async_reads (step w s e) = [] \<and>
         effects (step w s e) = effects s \<and> pending_promises (step w s e) = pending_promises s"
  using assms by (cases e) (simp_all add: send_ipc_message_async_def Let_def complete_read_def)

lemma stalled_run:
  "async_inflight s \<Longrightarrow> async_reads s = [] \<Longrightarrow>
     async_inflight (run w s evs) \<and> async_reads (run w s evs) = [] \<and>
     effects (run w s evs) = effects s \<and> pending_promises (run w s evs) = pending_promises s"
proof (induction evs arbitrary: s)
  case Nil
  then show ?case by (simp add: run_def)
next
  case (Cons e evs)
  have st: "async_inflight (step w s e) \<and> async_reads (step w s e) = [] \<and>
         effects (step w s e) = effects s \<and> pending_promises (step w s e) = pending_promises s"
    by (rule stalled_step [OF Cons.prems])
  have "run w s (e # evs) = run w (step w s e) evs" by (simp add: run_def)
  then show ?case using Cons.IH [of "step w s e"] st by simp
qed

text \<open>
  C2 does not hold of the code. When the read of the reply to the request in flight
  fails, \<^verbatim>\<open>async_read_callback\<close> calls the failure continuation and returns: the
  in-flight flag stays set, the requests behind it stay in the queue, and no later stub
  call or completed read has any effect on the transport or on a continuation.
\<close>

theorem read_failure_stalls_queue:
  assumes "busy_with r rs s"
  shows "async_inflight (complete_read w (ReadFailed err) s) \<and>
         async_queue (complete_read w (ReadFailed err) s) = Some rs \<and>
         effects (complete_read w (ReadFailed err) s) =
           effects s @ [Called (req_reject r)
              (JsString (case err of Some m \<Rightarrow> m | None \<Rightarrow> ''Failed to read response''))] \<and>
         (\<forall>evs. async_inflight (run w (complete_read w (ReadFailed err) s) evs) \<and>
                effects (run w (complete_read w (ReadFailed err) s) evs) =
                  effects (complete_read w (ReadFailed err) s))"
proof -
  let ?t = "complete_read w (ReadFailed err) s"
  have t: "?t = s\<lparr>async_reads := [],
                  effects := effects s @ [Called (req_reject r)
                    (JsString (case err of Some m \<Rightarrow> m | None \<Rightarrow> ''Failed to read response''))],
                  pending_promises := (pending_promises s)(req_call_id r := None)\<rparr>"
    using assms by (simp add: complete_read_def async_read_callback_def busy_with_def)
  have i: "async_inflight ?t" and r: "async_reads ?t = []"
    using assms by (simp_all add: t busy_with_def)
  have "\<forall>evs. async_inflight (run w ?t evs) \<and> effects (run w ?t evs) = effects ?t"
    using stalled_run [OF i r] by blast
  moreover have "async_queue ?t = Some rs" using assms by (simp add: t busy_with_def)
  moreover have "effects ?t = effects s @ [Called (req_reject r)
              (JsString (case err of Some m \<Rightarrow> m | None \<Rightarrow> ''Failed to read response''))]"
    by (simp add: t)
  ultimately show ?thesis using i by blast
qed

theorem read_failure_stalls_queue_witness:
  "async_inflight (complete_read reliable_world (ReadFailed None)
      (run reliable_world initial_bridge [Submit (sample_request 0), Submit (sample_request 1)])) \<and>
   async_queue (complete_read reliable_world (ReadFailed None)
      (run reliable_world initial_bridge [Submit (sample_request 0), Submit (sample_request 1)]))
     = Some [sample_request 1] \<and>
   effects (complete_read reliable_world (ReadFailed None)
      (run reliable_world initial_bridge [Submit (sample_request 0), Submit (sample_request 1)])) =
     effects (run reliable_world initial_bridge [Submit (sample_request 0), Submit (sample_request 1)]) @
       [Called (req_reject (sample_request 0)) (JsString ''Failed to read response'')]"
  using read_failure_stalls_queue [OF two_submitted, of reliable_world None]
  by simp

section \<open>Properties of the synchronous channel and the field accessors\<close>

lemma send_ipc_message_sync_effects:
  "effects (snd (send_ipc_message_sync w msg s)) =
     effects s @ (if sync_accepts w s then [SyncWrote msg] else [])"
  by (simp add: send_ipc_message_sync_def connect_sync_ipc_def Let_def sync_accepts_def)

lemma send_ipc_message_sync_frame:
  "js_exception (snd (send_ipc_message_sync w msg s)) = js_exception s"
  "pending_promises (snd (send_ipc_message_sync w msg s)) = pending_promises s"
  "async_queue (snd (send_ipc_message_sync w msg s)) = async_queue s"
  "async_inflight (snd (send_ipc_message_sync w msg s)) = async_inflight s"
  "async_reads (snd (send_ipc_message_sync w msg s)) = async_reads s"
  "js_window (snd (send_ipc_message_sync w msg s)) = js_window s"
  "call_counter (snd (send_ipc_message_sync w msg s)) = call_counter s"
  by (simp_all add: send_ipc_message_sync_def connect_sync_ipc_def Let_def)

lemma send_ipc_message_sync_reply:
  "sync_accepts w s \<Longrightarrow> fst (send_ipc_message_sync w msg s) = w_sync_read w (sync_writes s)"
  by (auto simp add: send_ipc_message_sync_def connect_sync_ipc_def Let_def sync_accepts_def)

lemma sync_accepts_counter [simp]:
  "sync_accepts w (s\<lparr>call_counter := c\<rparr>) = sync_accepts w s"
  by (simp add: sync_accepts_def)

lemma decimal_0 [simp]: "decimal 0 = ''0''"
  by (simp add: decimal.simps)

text \<open>
  C6, as amended. The field setter checks the kind of the value against the declared
  type first: a string type wants a string, the integer and float types want a number,
  \<^verbatim>\<open>bool\<close> wants a boolean, any other type wants an object (an array is one). On a
  mismatch the type error that names the field, the declared type and the observed kind
  (string, number, boolean, function, array, object or unknown) is thrown and the state
  is otherwise unchanged: nothing is written. On a match no exception is thrown and
  \<^verbatim>\<open>send_ipc_message_sync\<close> runs once with the \<^verbatim>\<open>__setField\<close> request: exactly one line is
  written when the channel is or gets connected and the write succeeds, and none
  otherwise; the outcome does not depend on the reply.
\<close>

theorem field_setter_validates_before_sending:
  "(\<not> type_valid (field_type d) v \<longrightarrow>
      field_setter_callback w d v s =
        s\<lparr>js_exception := Some
            (''TypeError: Cannot assign to field '' @ [CHR 0x27] @ field_name d @ [CHR 0x27] @
             '': expected '' @ field_type d @ '' but got '' @
             (case v of
                JsString x \<Rightarrow> ''string'' | JsNumber x \<Rightarrow> ''number'' | JsBoolean x \<Rightarrow> ''boolean''
              | JsFunction x \<Rightarrow> ''function'' | JsArray x \<Rightarrow> ''array'' | JsObject x \<Rightarrow> ''object''
              | JsPromise x \<Rightarrow> ''object'' | JsUndefined \<Rightarrow> ''unknown'' | JsNull \<Rightarrow> ''unknown''))\<rparr> \<and>
      effects (field_setter_callback w d v s) = effects s \<and>
      sync_writes (field_setter_callback w d v s) = sync_writes s) \<and>
   (type_valid (field_type d) v \<longrightarrow>
      js_exception (field_setter_callback w d v s) = js_exception s \<and>
      effects (field_setter_callback w d v s) =
        effects s @ (if sync_accepts w s then [SyncWrote (set_field_request s (field_name d) v)] else []) \<and>
      field_setter_callback w d v s =
        field_setter_callback (w\<lparr>w_sync_read := reply\<rparr>) d v s) \<and>
   type_valid (field_type d) v =
     (if field_type d = ''string'' then jsc_value_is_string v
      else if field_type d \<in> {''int'', ''int8'', ''int16'', ''int32'', ''int64'', ''uint'', ''uint8'',
                ''uint16'', ''uint32'', ''uint64'', ''float32'', ''float64''}
      then jsc_value_is_number v
      else if field_type d = ''bool'' then jsc_value_is_boolean v
      else (jsc_value_is_object v \<or> jsc_value_is_array v))"
proof -
  have a: "type_valid (field_type d) v =
     (if field_type d = ''string'' then jsc_value_is_string v
      else if field_type d \<in> {''int'', ''int8'', ''int16'', ''int32'', ''int64'', ''uint'', ''uint8'',
                ''uint16'', ''uint32'', ''uint64'', ''float32'', ''float64''}
      then jsc_value_is_number v
      else if field_type d = ''bool'' then jsc_value_is_boolean v
      else (jsc_value_is_object v \<or> jsc_value_is_array v))"
    unfolding type_valid_def by auto
  have b: "effects (set_field_value w (field_name d) v s) =
        effects s @ (if sync_accepts w s then [SyncWrote (set_field_request s (field_name d) v)] else [])"
    by (simp add: set_field_value_def Let_def send_ipc_message_sync_effects sync_accepts_def
          set_field_request_def)
  have c: "js_exception (set_field_value w (field_name d) v s) = js_exception s"
    by (simp add: set_field_value_def Let_def send_ipc_message_sync_frame)
  have e: "set_field_value w (field_name d) v s =
           set_field_value (w\<lparr>w_sync_read := reply\<rparr>) (field_name d) v s"
    by (simp add: set_field_value_def Let_def send_ipc_message_sync_def connect_sync_ipc_def)
  have k: "observed_kind v =
             (case v of
                JsString x \<Rightarrow> ''string'' | JsNumber x \<Rightarrow> ''number'' | JsBoolean x \<Rightarrow> ''boolean''
              | JsFunction x \<Rightarrow> ''function'' | JsArray x \<Rightarrow> ''array'' | JsObject x \<Rightarrow> ''object''
              | JsPromise x \<Rightarrow> ''object'' | JsUndefined \<Rightarrow> ''unknown'' | JsNull \<Rightarrow> ''unknown'')"
    by (cases v) (simp_all add: observed_kind_def)
  show ?thesis
    using a b c e by (simp add: field_setter_callback_def k)
qed

theorem field_setter_validates_before_sending_witness:
  "\<not> type_valid (field_type count_field) (JsBoolean True) \<and>
   js_exception (field_setter_callback demo_world count_field (JsBoolean True) initial_bridge) =
     Some (''TypeError: Cannot assign to field '' @ [CHR 0x27] @ ''Count'' @ [CHR 0x27] @
           '': expected int32 but got boolean'') \<and>
   effects (field_setter_callback demo_world count_field (JsBoolean True) initial_bridge) = [] \<and>
   \<not> type_valid (field_type count_field) (JsArray [JsNumber 1]) \<and>
   js_exception (field_setter_callback demo_world count_field (JsArray [JsNumber 1]) initial_bridge) =
     Some (''TypeError: Cannot assign to field '' @ [CHR 0x27] @ ''Count'' @ [CHR 0x27] @
           '': expected int32 but got array'') \<and>
   type_valid (field_type count_field) (JsNumber 7) \<and>
   effects (field_setter_callback demo_world count_field (JsNumber 7) initial_bridge) =
     [SyncWrote (JObject [(''id'', JString ''0''), (''method'', JString ''__setField''),
                          (''params'', JArray [JString ''Count'', JDouble 7])])]"
proof -
  have n: "\<not> type_valid (field_type count_field) (JsBoolean True)"
    by (simp add: type_valid_def count_field_def)
  have n2: "\<not> type_valid (field_type count_field) (JsArray [JsNumber 1])"
    by (simp add: type_valid_def count_field_def)
  have y: "type_valid (field_type count_field) (JsNumber 7)"
    by (simp add: type_valid_def count_field_def)
  have a: "sync_accepts demo_world initial_bridge"
    by (simp add: sync_accepts_def demo_world_def reliable_world_def initial_bridge_def)
  have r: "set_field_request initial_bridge ''Count'' (JsNumber 7) =
             JObject [(''id'', JString ''0''), (''method'', JString ''__setField''),
                      (''params'', JArray [JString ''Count'', JDouble 7])]"
    by (simp add: set_field_request_def initial_bridge_def)
  have e: "effects initial_bridge = []" by (simp add: initial_bridge_def)
  show ?thesis
    using field_setter_validates_before_sending [of count_field "JsBoolean True" demo_world initial_bridge]
      field_setter_validates_before_sending [of count_field "JsArray [JsNumber 1]" demo_world initial_bridge]
      field_setter_validates_before_sending [of count_field "JsNumber 7" demo_world initial_bridge]
      n n2 y a r e
    by (simp add: count_field_def)
qed

text \<open>
  The claim as the specification has it fails on the round trip: with the backend
  unreachable a number assigned to an \<^verbatim>\<open>int32\<close> field passes the check and nothing is
  written; no exception is thrown either.
\<close>

theorem field_setter_round_trip_counterexample:
  "type_valid (field_type count_field) (JsNumber 7) \<and>
   effects (field_setter_callback unreachable_world count_field (JsNumber 7) initial_bridge) = [] \<and>
   sync_writes (field_setter_callback unreachable_world count_field (JsNumber 7) initial_bridge) = 0 \<and>
   js_exception (field_setter_callback unreachable_world count_field (JsNumber 7) initial_bridge) = None"
  by (simp add: field_setter_callback_def set_field_value_def send_ipc_message_sync_def
        connect_sync_ipc_def Let_def type_valid_def count_field_def unreachable_world_def
        initial_bridge_def)

text \<open>
  C8, as amended. When the reply to \<^verbatim>\<open>__getField\<close> has the \<^verbatim>\<open>result\<close> member \<open>42\<close> the
  getter returns the number \<open>42\<close>. When the reply has no \<^verbatim>\<open>result\<close> member, whatever
  else it has, the getter returns \<^verbatim>\<open>undefined\<close>: no exception is thrown and the only
  effect is the request written; the getter never looks at an \<^verbatim>\<open>error\<close> member.
\<close>

theorem get_field_result_and_error:
  assumes "sync_accepts w s"
    and "w_sync_read w (sync_writes s) = Some (Document (JObject ms))"
  shows "(map_of ms ''result'' = Some (JInt 42) \<longrightarrow> fst (get_field_value w f ctx s) = JsNumber 42) \<and>
         (map_of ms ''result'' = None \<longrightarrow>
            fst (get_field_value w f ctx s) = JsUndefined \<and>
            js_exception (snd (get_field_value w f ctx s)) = js_exception s \<and>
            effects (snd (get_field_value w f ctx s)) = effects s @ [SyncWrote (get_field_request s f)])"
proof -
  let ?s1 = "s\<lparr>call_counter := call_counter s + 1\<rparr>"
  have acc: "sync_accepts w ?s1" using assms(1) by simp
  have rep: "fst (send_ipc_message_sync w (get_field_request s f) ?s1) = Some (Document (JObject ms))"
    using send_ipc_message_sync_reply [OF acc] assms(2) by simp
  have eff: "effects (snd (send_ipc_message_sync w (get_field_request s f) ?s1)) =
      effects s @ [SyncWrote (get_field_request s f)]"
    using acc by (simp add: send_ipc_message_sync_effects)
  have exc: "js_exception (snd (send_ipc_message_sync w (get_field_request s f) ?s1)) = js_exception s"
    by (simp add: send_ipc_message_sync_frame)
  show ?thesis
    using rep eff exc
    by (simp add: get_field_value_def Let_def get_field_request_def convert_result_sync_def)
qed

theorem get_field_result_and_error_witness:
  "sync_accepts (answering (JObject [(''result'', JInt 42)])) initial_bridge \<and>
   fst (get_field_value (answering (JObject [(''result'', JInt 42)])) ''Count'' 1 initial_bridge) =
     JsNumber 42"
proof -
  have a: "sync_accepts (answering (JObject [(''result'', JInt 42)])) initial_bridge"
    by (simp add: sync_accepts_def answering_def reliable_world_def initial_bridge_def)
  have r: "w_sync_read (answering (JObject [(''result'', JInt 42)])) (sync_writes initial_bridge) =
      Some (Document (JObject [(''result'', JInt 42)]))"
    by (simp add: answering_def)
  show ?thesis
    using get_field_result_and_error [OF a r, of "''Count''" 1] a by simp
qed

text \<open>
  The claim as the specification has it fails on its second half: the reply
  \<^verbatim>\<open>{"error": "boom"}\<close> gives \<^verbatim>\<open>undefined\<close>; no function is called with \<^verbatim>\<open>"boom"\<close> and
  no exception is thrown.
\<close>

theorem get_field_error_counterexample:
  "fst (get_field_value (answering (JObject [(''error'', JString ''boom'')])) ''Count'' 1 initial_bridge) =
     JsUndefined \<and>
   js_exception (snd (get_field_value (answering (JObject [(''error'', JString ''boom'')])) ''Count'' 1
      initial_bridge)) = None \<and>
   effects (snd (get_field_value (answering (JObject [(''error'', JString ''boom'')])) ''Count'' 1
      initial_bridge)) =
     [SyncWrote (JObject [(''id'', JString ''0''), (''method'', JString ''__getField''),
                          (''params'', JArray [JString ''Count''])])]"
  by (simp add: get_field_value_def send_ipc_message_sync_def connect_sync_ipc_def Let_def
        answering_def reliable_world_def initial_bridge_def)

subsection \<open>The conversion of results\<close>

text \<open>
  The conversion in \<^verbatim>\<open>async_read_callback\<close> is the one the specification describes: an
  object or array becomes what \<^verbatim>\<open>JSON.parse\<close> returns, and \<^verbatim>\<open>undefined\<close> with no
  exception left when it throws.
\<close>

lemma convert_result_async_table:
  "convert_result_async w exc (JString str) = (JsString str, exc)"
  "convert_result_async w exc (JDouble d) = (JsNumber d, exc)"
  "\<bar>n\<bar> \<le> 2 ^ 53 \<Longrightarrow> convert_result_async w exc (JInt n) = (JsNumber (real_of_int n), exc)"
  "convert_result_async w exc (JBool b) = (JsBoolean b, exc)"
  "convert_result_async w exc JOther = (JsNull, exc)"
  "convert_result_async w exc JNull = (JsNull, exc)"
  "is_container_node j \<Longrightarrow> w_json_parse w j = Inr v \<Longrightarrow> convert_result_async w None j = (v, None)"
  "is_container_node j \<Longrightarrow> w_json_parse w j = Inl m \<Longrightarrow> convert_result_async w exc j = (JsUndefined, None)"
  by (cases j; simp add: convert_result_async_def)+

lemma convert_result_sync_table:
  "convert_result_sync w exc (JString str) = (Some (JsString str), exc)"
  "convert_result_sync w exc (JDouble d) = (Some (JsNumber d), exc)"
  "\<bar>n\<bar> \<le> 2 ^ 53 \<Longrightarrow> convert_result_sync w exc (JInt n) = (Some (JsNumber (real_of_int n)), exc)"
  "convert_result_sync w exc (JBool b) = (Some (JsBoolean b), exc)"
  "convert_result_sync w exc JOther = (Some JsNull, exc)"
  "convert_result_sync w exc JNull = (Some JsNull, exc)"
  "is_container_node j \<Longrightarrow> w_json_parse w j = Inr v \<Longrightarrow> convert_result_sync w exc j = (Some v, exc)"
  by (cases j; simp add: convert_result_sync_def)+

text \<open>
  C7 does not hold of the code in \<^verbatim>\<open>get_field_value\<close>. When \<^verbatim>\<open>JSON.parse\<close> throws on the
  object or array of a \<^verbatim>\<open>__getField\<close> reply, the exception is still pending in the script
  context when the getter returns, so it reaches the script that read the field; the
  same node in \<^verbatim>\<open>async_read_callback\<close> gives \<^verbatim>\<open>undefined\<close> and leaves no exception.
\<close>

theorem getter_reparse_failure_stays_pending:
  assumes "sync_accepts w s"
    and "w_sync_read w (sync_writes s) = Some (Document (JObject ms))"
    and "map_of ms ''result'' = Some node" and "is_container_node node"
    and "w_json_parse w node = Inl msg"
  shows "js_exception (snd (get_field_value w f ctx s)) = Some msg \<and>
         fst (get_field_value w f ctx s) = JsUndefined \<and>
         convert_result_async w exc node = (JsUndefined, None)"
proof -
  let ?s1 = "s\<lparr>call_counter := call_counter s + 1\<rparr>"
  have acc: "sync_accepts w ?s1" using assms(1) by simp
  have rep: "fst (send_ipc_message_sync w (get_field_request s f) ?s1) = Some (Document (JObject ms))"
    using send_ipc_message_sync_reply [OF acc] assms(2) by simp
  have nv: "\<not> is_value_node node" using assms(4) by (cases node) simp_all
  show ?thesis
    using rep nv assms(3,4,5)
    by (simp add: get_field_value_def Let_def get_field_request_def convert_result_sync_def
          convert_result_async_def)
qed

theorem getter_reparse_failure_stays_pending_witness:
  "js_exception (snd (get_field_value
      (answering (JObject [(''result'', JObject [(''a'', JArray [JInt 1, JInt 2])])]))
      ''Count'' 1 initial_bridge)) = Some ''SyntaxError'' \<and>
   convert_result_async (answering (JObject [(''result'', JObject [(''a'', JArray [JInt 1, JInt 2])])]))
      None (JObject [(''a'', JArray [JInt 1, JInt 2])]) = (JsUndefined, None)"
proof -
  let ?w = "answering (JObject [(''result'', JObject [(''a'', JArray [JInt 1, JInt 2])])])"
  have a: "sync_accepts ?w initial_bridge"
    by (simp add: sync_accepts_def answering_def reliable_world_def initial_bridge_def)
  have r: "w_sync_read ?w (sync_writes initial_bridge) =
      Some (Document (JObject [(''result'', JObject [(''a'', JArray [JInt 1, JInt 2])])]))"
    by (simp add: answering_def)
  have m: "map_of [(''result'', JObject [(''a'', JArray [JInt 1, JInt 2])])] ''result'' =
      Some (JObject [(''a'', JArray [JInt 1, JInt 2])])" by simp
  have c: "is_container_node (JObject [(''a'', JArray [JInt 1, JInt 2])])" by simp
  have p: "w_json_parse ?w (JObject [(''a'', JArray [JInt 1, JInt 2])]) = Inl ''SyntaxError''"
    by (simp add: answering_def reliable_world_def)
  show ?thesis
    using getter_reparse_failure_stays_pending [OF a r m c p, of "''Count''" 1 None] by simp
qed

section \<open>Properties of the bindings\<close>

lemmas install_simps = window_object_cleared_callback_def inject_bindings_def
  inject_console_interceptors_def send_ipc_message_sync_def connect_sync_ipc_def
  inject_package_def inject_struct_def inject_array_member_def inject_method_def inject_field_def
  inject_field_property_def inject_strux_def demo_world_def demo_packages_def
  call_method_stub_def go_method_callback_variadic_def js_call_go_method_def

lemma demo_bindings_installed: "inject_bindings demo_world ctx s \<noteq> None"
  by (simp add: install_simps Let_def reliable_world_def)

lemma drop_requests_empty [simp]: "drop_requests q = []"
  by (induction q) simp_all

lemma inject_bindings_frame:
  assumes "inject_bindings w ctx s = Some s'"
  shows "pending_promises s' = pending_promises s \<and> async_queue s' = async_queue s \<and>
         async_inflight s' = async_inflight s \<and>
         effects s' = effects s @ (if sync_accepts w s then [SyncWrote bindings_request] else [])"
  using assms
  by (auto simp: inject_bindings_def Let_def send_ipc_message_sync_frame
        send_ipc_message_sync_effects bindings_request_def
      split: option.splits parsed.splits if_splits json.splits prod.splits)

subsection \<open>The walk of a schema of the expected shape succeeds\<close>

lemma collect_total: "list_all (\<lambda>x. f x \<noteq> None) xs \<Longrightarrow> collect f xs \<noteq> None"
  by (induction xs) auto

lemma inject_array_member_total:
  assumes "array_member_ok p ms k" and "\<And>x. p x \<Longrightarrow> f x \<noteq> None"
  shows "inject_array_member f ms k \<noteq> None"
proof (cases "map_of ms k")
  case None
  then show ?thesis by (simp add: inject_array_member_def)
next
  case (Some j)
  then obtain xs where j: "j = JArray xs" and all: "list_all p xs"
    using assms(1) by (auto simp: array_member_ok_def split: json.splits)
  have "list_all (\<lambda>x. f x \<noteq> None) xs"
    using all assms(2) by (induction xs) auto
  then have "collect f xs \<noteq> None" by (rule collect_total)
  then show ?thesis using Some j by (simp add: inject_array_member_def)
qed

lemma inject_method_total: "method_info_ok x \<Longrightarrow> inject_method obj x \<noteq> None"
  by (auto simp: method_info_ok_def inject_method_def split: option.splits)

lemma inject_strux_method_total: "method_info_ok x \<Longrightarrow> inject_strux_method ns x \<noteq> None"
  by (auto simp: method_info_ok_def inject_strux_method_def split: option.splits)

lemma inject_field_total: "field_info_ok x \<Longrightarrow> inject_field obj x \<noteq> None"
  by (auto simp: field_info_ok_def inject_field_def split: option.splits)

lemma inject_struct_total:
  assumes "struct_ok member" shows "inject_struct obj member \<noteq> None"
proof -
  obtain ms where ms: "snd member = JObject ms"
    and m: "array_member_ok method_info_ok ms ''methods''"
    and f: "array_member_ok field_info_ok ms ''fields''"
    using assms by (auto simp: struct_ok_def split: json.splits)
  have "inject_array_member (inject_method (obj @ [fst member])) ms ''methods'' \<noteq> None"
    by (rule inject_array_member_total [OF m]) (rule inject_method_total)
  moreover have "inject_array_member (inject_field (obj @ [fst member])) ms ''fields'' \<noteq> None"
    by (rule inject_array_member_total [OF f]) (rule inject_field_total)
  ultimately show ?thesis using ms by (auto simp: inject_struct_def Let_def)
qed

lemma inject_package_total:
  assumes "package_ok member" shows "inject_package member \<noteq> None"
proof -
  obtain structs where s: "snd member = JObject structs" and all: "list_all struct_ok structs"
    using assms by (auto simp: package_ok_def split: json.splits)
  have "list_all (\<lambda>x. inject_struct [''go'', fst member] x \<noteq> None) structs"
    using all inject_struct_total by (induction structs) auto
  then have "collect (inject_struct [''go'', fst member]) structs \<noteq> None" by (rule collect_total)
  then show ?thesis using s by (auto simp: inject_package_def Let_def)
qed

lemma inject_strux_namespace_total:
  assumes "namespace_ok member" shows "inject_strux_namespace member \<noteq> None"
proof -
  obtain ms where ms: "snd member = JObject ms"
    and m: "array_member_ok method_info_ok ms ''methods''"
    using assms by (auto simp: namespace_ok_def split: json.splits)
  have "inject_array_member (inject_strux_method (fst member)) ms ''methods'' \<noteq> None"
    by (rule inject_array_member_total [OF m]) (rule inject_strux_method_total)
  then show ?thesis using ms by (auto simp: inject_strux_namespace_def)
qed

lemma schema_walk_total:
  assumes "schema_ok bindings"
  shows "collect inject_package bindings \<noteq> None \<and> inject_strux bindings \<noteq> None"
proof -
  have "list_all (\<lambda>x. inject_package x \<noteq> None) bindings"
    using assms inject_package_total by (auto simp: schema_ok_def list_all_iff)
  then have p: "collect inject_package bindings \<noteq> None" by (rule collect_total)
  have s: "inject_strux bindings \<noteq> None"
  proof (cases "map_of bindings ''strux''")
    case None
    then show ?thesis by (simp add: inject_strux_def)
  next
    case (Some j)
    then obtain nss where j: "j = JObject nss" and all: "list_all namespace_ok nss"
      using assms by (auto simp: schema_ok_def split: json.splits)
    have "list_all (\<lambda>x. inject_strux_namespace x \<noteq> None) nss"
      using all inject_strux_namespace_total by (auto simp: list_all_iff)
    then have "collect inject_strux_namespace nss \<noteq> None" by (rule collect_total)
    then show ?thesis using Some j by (auto simp: inject_strux_def)
  qed
  show ?thesis using p s by simp
qed

lemma inject_bindings_total:
  assumes "bindings_reply_ok (fst (send_ipc_message_sync w bindings_request s))"
  shows "inject_bindings w ctx s \<noteq> None"
proof (cases "fst (send_ipc_message_sync w bindings_request s)")
  case None
  then show ?thesis by (simp add: inject_bindings_def Let_def bindings_request_def)
next
  case (Some l)
  show ?thesis
  proof (cases l)
    case Malformed
    then show ?thesis using Some by (simp add: inject_bindings_def Let_def bindings_request_def)
  next
    case (Document response_root)
    show ?thesis
    proof (cases "json_object_get_member (json_node_get_object response_root) ''result''")
      case None
      then have "\<not> json_object_has_member (json_node_get_object response_root) ''result''"
        by (cases "json_node_get_object response_root") simp_all
      then show ?thesis using Some Document
        by (simp add: inject_bindings_def Let_def bindings_request_def)
    next
      case r: (Some j)
      then obtain bs where j: "j = JObject bs" and ok: "schema_ok bs"
        using assms Some Document by (auto simp: bindings_reply_ok_def split: json.splits)
      have "collect inject_package bs \<noteq> None \<and> inject_strux bs \<noteq> None"
        by (rule schema_walk_total [OF ok])
      then show ?thesis using Some Document r j
        by (auto simp: inject_bindings_def Let_def bindings_request_def)
    qed
  qed
qed

lemma send_ipc_message_sync_reply_cases:
  "fst (send_ipc_message_sync w msg s) = None \<or>
   fst (send_ipc_message_sync w msg s) = w_sync_read w (sync_writes s)"
  by (simp add: send_ipc_message_sync_def connect_sync_ipc_def Let_def)

lemma window_object_cleared_total:
  assumes "bindings_reply_ok (w_sync_read w (sync_writes s))"
  shows "window_object_cleared_callback w ctx s \<noteq> None"
proof -
  let ?s3 = "inject_console_interceptors ctx
     (s\<lparr>js_window := [], js_exception := None, pending_promises := Map.empty,
        async_queue := map_option drop_requests (async_queue s), async_inflight := False\<rparr>)"
  have w: "sync_writes ?s3 = sync_writes s" by (simp add: inject_console_interceptors_def)
  have "bindings_reply_ok (fst (send_ipc_message_sync w bindings_request ?s3))"
    using send_ipc_message_sync_reply_cases [of w bindings_request ?s3] assms w
    by (auto simp: bindings_reply_ok_def)
  then have "inject_bindings w ctx ?s3 \<noteq> None" by (rule inject_bindings_total)
  then show ?thesis by (simp add: window_object_cleared_callback_def Let_def)
qed

subsection \<open>The window object is cleared\<close>

text \<open>
  C9. When the window object is cleared, \<^verbatim>\<open>inject_bindings\<close> is entered with the
  correlation table empty, the queue emptied (if there is one), the in-flight flag
  cleared and the effects as they were: no continuation of a dropped request has been
  called. When \<^verbatim>\<open>inject_bindings\<close> returns, all this still holds, and the only new
  effect is the schema request written on the synchronous channel. It does return when
  the reply to the schema request is in order.
\<close>

theorem context_reset_discards_async_state:
  "(\<exists>s1. window_object_cleared_callback w ctx s = inject_bindings w ctx s1 \<and>
         pending_promises s1 = Map.empty \<and>
         async_queue s1 = map_option (\<lambda>q. []) (async_queue s) \<and>
         \<not> async_inflight s1 \<and> effects s1 = effects s) \<and>
   (\<forall>s'. window_object_cleared_callback w ctx s = Some s' \<longrightarrow>
         pending_promises s' = Map.empty \<and>
         async_queue s' = map_option (\<lambda>q. []) (async_queue s) \<and>
         \<not> async_inflight s' \<and>
         effects s' = effects s @ (if sync_accepts w s then [SyncWrote bindings_request] else [])) \<and>
   (bindings_reply_ok (w_sync_read w (sync_writes s)) \<longrightarrow>
      window_object_cleared_callback w ctx s \<noteq> None)"
proof -
  let ?s3 = "inject_console_interceptors ctx
     (s\<lparr>js_window := [], js_exception := None, pending_promises := Map.empty,
        async_queue := map_option drop_requests (async_queue s), async_inflight := False\<rparr>)"
  have d: "map_option drop_requests (async_queue s) = map_option (\<lambda>q. []) (async_queue s)"
    by (cases "async_queue s") simp_all
  have eq: "window_object_cleared_callback w ctx s = inject_bindings w ctx ?s3"
    by (simp add: window_object_cleared_callback_def Let_def)
  have p: "pending_promises ?s3 = Map.empty \<and>
         async_queue ?s3 = map_option (\<lambda>q. []) (async_queue s) \<and>
         \<not> async_inflight ?s3 \<and> effects ?s3 = effects s"
    using d by (simp add: inject_console_interceptors_def)
  have acc: "sync_accepts w ?s3 = sync_accepts w s"
    by (simp add: sync_accepts_def inject_console_interceptors_def)
  have "pending_promises s' = Map.empty \<and>
         async_queue s' = map_option (\<lambda>q. []) (async_queue s) \<and>
         \<not> async_inflight s' \<and>
         effects s' = effects s @ (if sync_accepts w s then [SyncWrote bindings_request] else [])"
    if "window_object_cleared_callback w ctx s = Some s'" for s'
    using inject_bindings_frame [of w ctx ?s3 s'] that eq p acc by simp
  then show ?thesis using eq p window_object_cleared_total [of w s ctx] by blast
qed

theorem context_reset_discards_async_state_witness:
  "window_object_cleared_callback demo_world 1
      (run reliable_world initial_bridge [Submit (sample_request 0), Submit (sample_request 1)]) \<noteq> None \<and>
   pending_promises (the (window_object_cleared_callback demo_world 1
      (run reliable_world initial_bridge [Submit (sample_request 0), Submit (sample_request 1)])))
     = Map.empty \<and>
   async_queue (the (window_object_cleared_callback demo_world 1
      (run reliable_world initial_bridge [Submit (sample_request 0), Submit (sample_request 1)])))
     = Some [] \<and>
   \<not> async_inflight (the (window_object_cleared_callback demo_world 1
      (run reliable_world initial_bridge [Submit (sample_request 0), Submit (sample_request 1)])))"
proof -
  let ?s = "run reliable_world initial_bridge [Submit (sample_request 0), Submit (sample_request 1)]"
  have q: "async_queue ?s = Some [sample_request 1]"
    using two_submitted by (simp add: busy_with_def)
  have "window_object_cleared_callback demo_world 1 ?s \<noteq> None"
    by (simp add: window_object_cleared_callback_def Let_def demo_bindings_installed)
  then obtain s' where s': "window_object_cleared_callback demo_world 1 ?s = Some s'"
    by blast
  show ?thesis
    using context_reset_discards_async_state [of demo_world 1 ?s] s' q by simp
qed

subsection \<open>Method stubs\<close>

lemma go_method_callback_submits:
  "snd (go_method_callback_variadic w ud args ctx s) =
     step w (s\<lparr>call_counter := call_counter s + 1, js_promises := Suc (js_promises s)\<rparr>)
       (Submit (stub_request s ud args ctx))"
  by (simp add: go_method_callback_variadic_def js_call_go_method_def Let_def stub_request_def)

lemma collect_filter:
  "collect f xs = Some bs \<Longrightarrow> (\<And>x ys. x \<in> set xs \<Longrightarrow> f x = Some ys \<Longrightarrow> filter P ys = g x) \<Longrightarrow>
     filter P bs = concat (map g xs)"
proof (induction xs arbitrary: bs)
  case Nil
  then show ?case by simp
next
  case (Cons x xs)
  obtain ys zs where ys: "f x = Some ys" and zs: "collect f xs = Some zs" and bs: "bs = ys @ zs"
    using Cons.prems(1) by (auto split: option.splits)
  have "filter P ys = g x" using Cons.prems(2) ys by simp
  moreover have "filter P zs = concat (map g xs)"
    using Cons.IH [OF zs] Cons.prems(2) by simp
  ultimately show ?case using bs by simp
qed

lemma collect_methods_stubs:
  "collect (inject_method obj) infos = Some bs \<Longrightarrow>
     bs = map (\<lambda>m. (obj @ [m], MethodStub m)) (declared_names infos)"
  by (induction infos arbitrary: bs) (auto simp: inject_method_def split: option.splits)

lemma collect_strux_methods_stubs:
  "collect (inject_strux_method ns) infos = Some bs \<Longrightarrow>
     bs = map (\<lambda>m. strux_stub (ns, m)) (declared_names infos)"
  by (induction infos arbitrary: bs)
     (auto simp: inject_strux_method_def strux_stub_def split: option.splits)

lemma collect_fields_no_stubs:
  "collect (inject_field obj) infos = Some bs \<Longrightarrow> filter is_method_stub bs = []"
  by (induction infos arbitrary: bs)
     (auto simp: inject_field_def inject_field_property_def split: option.splits prod.splits)

lemma inject_struct_stubs:
  assumes "inject_struct pkg_obj st = Some bs"
  shows "filter is_method_stub bs =
           map (\<lambda>m. (pkg_obj @ [fst st, m], MethodStub m)) (declared_methods_of (snd st))"
proof -
  obtain sd ms fs where sd: "snd st = JObject sd"
    and ms: "inject_array_member (inject_method (pkg_obj @ [fst st])) sd ''methods'' = Some ms"
    and fs: "inject_array_member (inject_field (pkg_obj @ [fst st])) sd ''fields'' = Some fs"
    and bs: "bs = (pkg_obj @ [fst st], PlainObject) # ms @ fs"
    using assms
    by (cases "snd st")
       (auto simp: inject_struct_def Let_def split: option.splits prod.splits)
  have f0: "filter is_method_stub fs = []"
    using fs collect_fields_no_stubs
    by (auto simp: inject_array_member_def split: if_splits option.splits json.splits)
  have m0: "ms = map (\<lambda>m. ((pkg_obj @ [fst st]) @ [m], MethodStub m)) (declared_methods_of (snd st))"
    using ms sd collect_methods_stubs [of "pkg_obj @ [fst st]"]
    by (auto simp: inject_array_member_def declared_methods_of_def
          split: if_splits option.splits json.splits)
  have "filter is_method_stub ms = ms" unfolding m0 by (induction "declared_methods_of (snd st)") (auto simp: filter_map comp_def)
  then show ?thesis using bs f0 m0 by simp
qed

lemma inject_package_stubs:
  assumes "inject_package member = Some bs"
  shows "filter is_method_stub bs = map go_stub (declared_package_methods member)"
proof -
  obtain structs cs where s: "snd member = JObject structs"
    and c: "collect (inject_struct [''go'', fst member]) structs = Some cs"
    and bs: "bs = ([''go'', fst member], PlainObject) # cs"
    using assms
    by (cases "snd member") (auto simp: inject_package_def Let_def split: option.splits)
  have "filter is_method_stub cs =
      concat (map (\<lambda>st. map (\<lambda>m. ([''go'', fst member] @ [fst st, m], MethodStub m))
                          (declared_methods_of (snd st))) structs)"
    by (rule collect_filter [OF c]) (rule inject_struct_stubs)
  then show ?thesis
    using bs s by (simp add: declared_package_methods_def go_stub_def map_concat comp_def)
qed

lemma packages_stubs:
  assumes "collect inject_package bindings = Some bs"
  shows "filter is_method_stub bs = map go_stub (declared_methods bindings)"
proof -
  have "filter is_method_stub bs =
      concat (map (\<lambda>member. map go_stub (declared_package_methods member)) bindings)"
    by (rule collect_filter [OF assms]) (rule inject_package_stubs)
  then show ?thesis by (simp add: declared_methods_def map_concat comp_def)
qed

lemma inject_strux_namespace_stubs:
  assumes "inject_strux_namespace ns = Some bs"
  shows "filter is_method_stub bs = map (\<lambda>m. strux_stub (fst ns, m)) (declared_methods_of (snd ns))"
proof -
  obtain nd ms where nd: "snd ns = JObject nd"
    and ms: "inject_array_member (inject_strux_method (fst ns)) nd ''methods'' = Some ms"
    and bs: "bs = ([''strux'', fst ns], PlainObject) # ms"
    using assms
    by (cases "snd ns") (auto simp: inject_strux_namespace_def split: option.splits)
  have m0: "ms = map (\<lambda>m. strux_stub (fst ns, m)) (declared_methods_of (snd ns))"
    using ms nd collect_strux_methods_stubs [of "fst ns"]
    by (auto simp: inject_array_member_def declared_methods_of_def
          split: if_splits option.splits json.splits)
  have "filter is_method_stub ms = ms"
    unfolding m0 by (simp add: filter_map comp_def strux_stub_def)
  then show ?thesis using bs m0 by simp
qed

lemma strux_stubs:
  assumes "inject_strux bindings = Some ss"
  shows "filter is_method_stub ss = map strux_stub (declared_strux_methods bindings)"
proof (cases "map_of bindings ''strux''")
  case None
  then show ?thesis using assms by (simp add: inject_strux_def declared_strux_methods_def)
next
  case (Some j)
  then obtain nss cs where j: "j = JObject nss"
    and c: "collect inject_strux_namespace nss = Some cs"
    and ss: "ss = ([''strux''], PlainObject) # cs"
    using assms by (cases j) (auto simp: inject_strux_def split: option.splits)
  have "filter is_method_stub cs =
      concat (map (\<lambda>ns. map (\<lambda>m. strux_stub (fst ns, m)) (declared_methods_of (snd ns))) nss)"
    by (rule collect_filter [OF c]) (rule inject_strux_namespace_stubs)
  then show ?thesis
    using ss Some j by (simp add: declared_strux_methods_def map_concat comp_def)
qed

lemma inject_bindings_stubs:
  assumes "inject_bindings w ctx s = Some s'"
    and "fst (send_ipc_message_sync w bindings_request s) = Some (Document (JObject ms))"
    and "map_of ms ''result'' = Some (JObject bindings)"
  shows "filter is_method_stub (js_window s') =
           filter is_method_stub (js_window s) @ map go_stub (declared_methods bindings) @
           map strux_stub (declared_strux_methods bindings)"
proof -
  let ?s1 = "snd (send_ipc_message_sync w bindings_request s)"
  obtain ps ss where ps: "collect inject_package bindings = Some ps"
    and ss: "inject_strux bindings = Some ss"
    and s': "s' = ?s1\<lparr>js_window := js_window ?s1 @ ([''go''], PlainObject) # ps @ ss\<rparr>"
    using assms
    by (auto simp: inject_bindings_def Let_def bindings_request_def
          split: option.splits prod.splits)
  have w: "js_window ?s1 = js_window s" by (simp add: send_ipc_message_sync_frame)
  show ?thesis
    using packages_stubs [OF ps] strux_stubs [OF ss] s' w by simp
qed

text \<open>
  C1, as amended. The method stubs that the walk over the packages installs are, in the
  order of the schema, one for every method the schema declares: it sits at
  \<^verbatim>\<open>go.<namespace>.<struct>.<method>\<close> and captures the method's short name. The stubs of
  the walk of the \<^verbatim>\<open>strux\<close> member are one for every method of its namespaces, at
  \<^verbatim>\<open>strux.<namespace>.<method>\<close>, and capture \<^verbatim>\<open>strux.<namespace>.<method>\<close>. Calling a
  stub runs the callback with the captured name, which submits a request whose
  \<^verbatim>\<open>method\<close> member is that name, with the next call id and the arguments as
  \<^verbatim>\<open>params\<close>; at rest and over a transport that never fails this request is written.
  The method stubs that \<^verbatim>\<open>inject_bindings\<close> adds to the window object for a schema are
  those of the two walks.
\<close>

theorem method_stub_sends_short_name:
  assumes "collect inject_package bindings = Some bs" and "inject_strux bindings = Some ss"
  shows "filter is_method_stub bs = map go_stub (declared_methods bindings) \<and>
         filter is_method_stub ss = map strux_stub (declared_strux_methods bindings) \<and>
         (map_of (rev (js_window s)) path = Some (MethodStub ud) \<longrightarrow>
            call_method_stub w path args ctx s = Some (go_method_callback_variadic w ud args ctx s)) \<and>
         snd (go_method_callback_variadic w ud args ctx s) =
           step w (s\<lparr>call_counter := call_counter s + 1, js_promises := Suc (js_promises s)\<rparr>)
             (Submit (stub_request s ud args ctx)) \<and>
         req_message (stub_request s ud args ctx) =
           JObject [(''id'', JString (decimal (unat (call_counter s)))), (''method'', JString ud),
                    (''params'', JArray (map argument_to_json args))] \<and>
         (reliable w \<and> idle s \<longrightarrow>
            effects (snd (go_method_callback_variadic w ud args ctx s)) =
              effects s @ [AsyncWrote (req_message (stub_request s ud args ctx)),
                           AsyncReadStarted (req_call_id (stub_request s ud args ctx))]) \<and>
         (inject_bindings w ctx s0 = Some s1 \<and>
          fst (send_ipc_message_sync w bindings_request s0) = Some (Document (JObject ms)) \<and>
          map_of ms ''result'' = Some (JObject bindings) \<longrightarrow>
            filter is_method_stub (js_window s1) =
              filter is_method_stub (js_window s0) @ map go_stub (declared_methods bindings) @
              map strux_stub (declared_strux_methods bindings))"
proof -
  let ?s' = "s\<lparr>call_counter := call_counter s + 1, js_promises := Suc (js_promises s)\<rparr>"
  have sub: "snd (go_method_callback_variadic w ud args ctx s) =
      step w ?s' (Submit (stub_request s ud args ctx))"
    by (rule go_method_callback_submits)
  have wr: "effects (snd (go_method_callback_variadic w ud args ctx s)) =
                effects s @ [AsyncWrote (req_message (stub_request s ud args ctx)),
                             AsyncReadStarted (req_call_id (stub_request s ud args ctx))]"
    if "reliable w" "idle s"
  proof -
    have i: "idle ?s'" using that(2) by (simp add: idle_def)
    show ?thesis using submit_idle [OF that(1) i, of "stub_request s ud args ctx"] sub by simp
  qed
  have c: "call_method_stub w path args ctx s = Some (go_method_callback_variadic w ud args ctx s)"
    if "map_of (rev (js_window s)) path = Some (MethodStub ud)"
    using that by (simp add: call_method_stub_def)
  have m: "req_message (stub_request s ud args ctx) =
           JObject [(''id'', JString (decimal (unat (call_counter s)))), (''method'', JString ud),
                    (''params'', JArray (map argument_to_json args))]"
    by (simp add: stub_request_def)
  have i: "filter is_method_stub (js_window s1) =
              filter is_method_stub (js_window s0) @ map go_stub (declared_methods bindings) @
              map strux_stub (declared_strux_methods bindings)"
    if "inject_bindings w ctx s0 = Some s1"
      "fst (send_ipc_message_sync w bindings_request s0) = Some (Document (JObject ms))"
      "map_of ms ''result'' = Some (JObject bindings)"
    using that by (rule inject_bindings_stubs)
  show ?thesis
    using packages_stubs [OF assms(1)] strux_stubs [OF assms(2)] sub wr c m i by blast
qed

lemmas declared_simps = declared_methods_def declared_package_methods_def declared_methods_of_def
  declared_strux_methods_def go_stub_def strux_stub_def demo_strux_packages_def

theorem method_stub_sends_short_name_witness:
  "collect inject_package demo_strux_packages \<noteq> None \<and>
   inject_strux demo_strux_packages \<noteq> None \<and>
   filter is_method_stub (the (collect inject_package demo_strux_packages)) =
     [([''go'', ''main'', ''App'', ''Greet''], MethodStub ''Greet''),
      ([''go'', ''strux'', ''boot'', ''Reboot''], MethodStub ''Reboot'')] \<and>
   filter is_method_stub (the (inject_strux demo_strux_packages)) =
     [([''strux'', ''boot'', ''Reboot''], MethodStub ''strux.boot.Reboot'')] \<and>
   req_message (stub_request initial_bridge ''Greet'' [JsString ''Ada''] 1) =
     JObject [(''id'', JString ''0''), (''method'', JString ''Greet''),
              (''params'', JArray [JString ''Ada''])]"
proof -
  obtain bs where bs: "collect inject_package demo_strux_packages = Some bs"
    by (simp add: install_simps demo_strux_packages_def)
  obtain ss where ss: "inject_strux demo_strux_packages = Some ss"
    by (simp add: install_simps demo_strux_packages_def inject_strux_namespace_def
          inject_strux_method_def)
  have d: "map go_stub (declared_methods demo_strux_packages) =
     [([''go'', ''main'', ''App'', ''Greet''], MethodStub ''Greet''),
      ([''go'', ''strux'', ''boot'', ''Reboot''], MethodStub ''Reboot'')]"
    by (simp add: declared_simps)
  have e: "map strux_stub (declared_strux_methods demo_strux_packages) =
     [([''strux'', ''boot'', ''Reboot''], MethodStub ''strux.boot.Reboot'')]"
    by (simp add: declared_simps)
  have c: "call_counter initial_bridge = 0" by (simp add: initial_bridge_def)
  show ?thesis
    using method_stub_sends_short_name [OF bs ss, of initial_bridge "[]" "''Greet''" demo_world
        "[JsString ''Ada'']" 1 initial_bridge initial_bridge "[]"] bs ss d e c
    by simp
qed

lemma demo_window:
  "map_option js_window (window_object_cleared_callback demo_world 1 initial_bridge) =
     Some [([''__nativeLog''], NativeFunction), ([''__nativeWarn''], NativeFunction),
           ([''__nativeError''], NativeFunction), ([''__nativeErrorHandler''], NativeFunction),
           ([''__nativeUnhandledRejection''], NativeFunction),
           ([''go''], PlainObject), ([''go'', ''main''], PlainObject),
           ([''go'', ''main'', ''App''], PlainObject),
           ([''go'', ''main'', ''App'', ''Greet''], MethodStub ''Greet''),
           ([''go'', ''main'', ''App'', ''Count''], FieldAccessor ''Count'' ''int32'')]"
  by (simp add: install_simps run_simps)

text \<open>
  The claim as the specification has it fails: for the method \<^verbatim>\<open>Greet\<close> of the struct
  \<^verbatim>\<open>App\<close> of the package \<^verbatim>\<open>main\<close> the request written has the \<^verbatim>\<open>method\<close> member
  \<^verbatim>\<open>"Greet"\<close>, and no request with \<^verbatim>\<open>"main.App.Greet"\<close> is written.
\<close>

theorem method_stub_counterexample:
  "window_object_cleared_callback demo_world 1 initial_bridge \<noteq> None \<and>
   call_method_stub demo_world [''go'', ''main'', ''App'', ''Greet''] [JsString ''Ada''] 1
     (the (window_object_cleared_callback demo_world 1 initial_bridge)) \<noteq> None \<and>
   effects (snd (the (call_method_stub demo_world [''go'', ''main'', ''App'', ''Greet'']
       [JsString ''Ada''] 1 (the (window_object_cleared_callback demo_world 1 initial_bridge))))) =
     [SyncWrote (JObject [(''id'', JString ''0''), (''method'', JString ''__getBindings''),
                          (''params'', JNull)]),
      AsyncWrote (JObject [(''id'', JString ''0''), (''method'', JString ''Greet''),
                           (''params'', JArray [JString ''Ada''])]),
      AsyncReadStarted ''0''] \<and>
   AsyncWrote (JObject [(''id'', JString ''0''), (''method'', JString ''main.App.Greet''),
                        (''params'', JArray [JString ''Ada''])]) \<notin>
     set (effects (snd (the (call_method_stub demo_world [''go'', ''main'', ''App'', ''Greet'']
       [JsString ''Ada''] 1 (the (window_object_cleared_callback demo_world 1 initial_bridge))))))"
  by (simp add: install_simps run_simps)

section \<open>The in-flight flag across stub calls, replies and context resets\<close>















end
